theory Spec2Isabelle
  imports Main "HOL-Library.Word"
begin

unbundle bit_operations_syntax

section \<open>Package batch: the packed wire format\<close>

text \<open>
  A Go \<^verbatim>\<open>[]byte\<close> is a list of 8-bit words, and a Go \<^verbatim>\<open>string\<close> is an immutable
  sequence of bytes, so \<^verbatim>\<open>string(data[a:b])\<close> is the identity on the model.
  A \<^verbatim>\<open>map[string]string\<close> is a partial function; a nil map and an empty map are both
  \<open>Map.empty\<close>.
\<close>

type_synonym byte = "8 word"
type_synonym bytes = "byte list"
type_synonym gostring = "byte list"
type_synonym gomap = "gostring \<rightharpoonup> gostring"
type_synonym entries = "(gostring \<times> gostring) list"

record Record =
  Metadata :: gomap
  Payload :: bytes

record Batch =
  Records :: "Record list"
  Context :: gomap

text \<open>
  A Go \<^verbatim>\<open>error\<close> value is modelled by its message (\<^verbatim>\<open>errors.New(msg)\<close> is \<open>Err msg\<close>;
  \<^verbatim>\<open>io.EOF\<close> is \<open>Err ''EOF''\<close>). The other two results are not values Go code returns;
  they are results of the model so that the end of a call without a result is visible.
  \<open>Panic\<close> is a run-time panic: an index or a slice bound out of range. \<open>OutOfMemory\<close>
  is the end of the process when the runtime cannot obtain the memory an allocation
  asks for (\<^verbatim>\<open>fatal error: runtime: out of memory\<close>, or the refusal of a \<^verbatim>\<open>make\<close> whose
  size the target cannot address).
\<close>

datatype error = Err string | Panic | OutOfMemory

definition magicNumber :: "32 word" where
  "magicNumber = 0x504C4E58"

definition version :: "32 word" where
  "version = 1"

subsection \<open>The target and the allocator\<close>

text \<open>
  Two things the decoder depends on are fixed neither by the repository nor by its
  \<^verbatim>\<open>go.mod\<close>: the size of \<^verbatim>\<open>int\<close>, which is 32 or 64 bits with the target the module is
  built for, and the answer of the runtime to a \<^verbatim>\<open>make\<close>. Both are inputs of the model.
  \<open>grants m r\<close> says whether the runtime of \<open>m\<close> obtains the memory for the request
  \<open>r\<close>: \<^verbatim>\<open>make(map[string]string, n)\<close> is \<open>Make_map n\<close> and \<^verbatim>\<open>make([]Record, n)\<close> is
  \<open>Make_Records n\<close>. Only these \<^verbatim>\<open>make\<close> calls are requests of the model: what they ask
  for is fixed by a count, whatever the size of the input. The memory of the strings and
  map entries that are decoded is bounded by the size of the input and is not modelled.
\<close>

datatype word_size = Bits32 | Bits64

datatype request = Make_map nat | Make_Records nat

record machine =
  int_size :: word_size
  grants :: "request \<Rightarrow> bool"

fun bits_of :: "word_size \<Rightarrow> nat" where
  "bits_of Bits32 = 32"
| "bits_of Bits64 = 64"

definition maxInt :: "machine \<Rightarrow> int" where
  "maxInt m = 2 ^ (bits_of (int_size m) - 1) - 1"

text \<open>
  Values of type \<^verbatim>\<open>int\<close> are integers between \<open>- maxInt m - 1\<close> and \<open>maxInt m\<close>. Addition
  wraps around, and so does the conversion of an unsigned value to \<^verbatim>\<open>int\<close>: on a 32-bit
  target \<^verbatim>\<open>int(n)\<close> is negative for a \<^verbatim>\<open>uint32\<close> of 2^31 or more.
\<close>

definition wrap :: "machine \<Rightarrow> int \<Rightarrow> int" where
  "wrap m x = (x + 2 ^ (bits_of (int_size m) - 1)) mod 2 ^ bits_of (int_size m)
              - 2 ^ (bits_of (int_size m) - 1)"

definition int_add :: "machine \<Rightarrow> int \<Rightarrow> int \<Rightarrow> int" where
  "int_add m a b = wrap m (a + b)"

definition int_of_uint :: "machine \<Rightarrow> 'a::len word \<Rightarrow> int" where
  "int_of_uint m w = wrap m (uint w)"

definition len :: "bytes \<Rightarrow> int" where
  "len data = int (length data)"

text \<open>
  A 64-bit target whose runtime obtains up to 16 GiB for one request, and a 32-bit
  target whose runtime obtains up to 1 GiB. A \<^verbatim>\<open>Record\<close> is a map pointer and a slice
  header, four machine words; an entry of a \<^verbatim>\<open>map[string]string\<close> holds two string
  headers, four machine words as well.
\<close>

definition amd64_16G :: machine where
  "amd64_16G =
     \<lparr>int_size = Bits64,
      grants = (\<lambda>r. case r of Make_map n \<Rightarrow> 32 * n \<le> 2 ^ 34 | Make_Records n \<Rightarrow> 32 * n \<le> 2 ^ 34)\<rparr>"

definition arm_1G :: machine where
  "arm_1G =
     \<lparr>int_size = Bits32,
      grants = (\<lambda>r. case r of Make_map n \<Rightarrow> 16 * n \<le> 2 ^ 30 | Make_Records n \<Rightarrow> 16 * n \<le> 2 ^ 30)\<rparr>"

subsection \<open>encoding/binary, big endian\<close>

text \<open>
  \<^verbatim>\<open>binary.BigEndian.AppendUint16/32\<close> append the bytes of the value, most significant
  first. \<^verbatim>\<open>binary.BigEndian.Uint16/32(b)\<close> index \<^verbatim>\<open>b[1]\<close> and \<^verbatim>\<open>b[3]\<close> first, which
  panics when \<^verbatim>\<open>b\<close> is shorter than the value read.
\<close>

definition AppendUint16 :: "bytes \<Rightarrow> 16 word \<Rightarrow> bytes" where
  "AppendUint16 b v = b @ [ucast (drop_bit 8 v), ucast v]"

definition AppendUint32 :: "bytes \<Rightarrow> 32 word \<Rightarrow> bytes" where
  "AppendUint32 b v =
     b @ [ucast (drop_bit 24 v), ucast (drop_bit 16 v), ucast (drop_bit 8 v), ucast v]"

definition Uint16 :: "bytes \<Rightarrow> error + 16 word" where
  "Uint16 b =
     (if length b < 2 then Inl Panic
      else Inr (ucast (b ! 1) OR push_bit 8 (ucast (b ! 0))))"

definition Uint32 :: "bytes \<Rightarrow> error + 32 word" where
  "Uint32 b =
     (if length b < 4 then Inl Panic
      else Inr (ucast (b ! 3) OR push_bit 8 (ucast (b ! 2)) OR push_bit 16 (ucast (b ! 1))
                OR push_bit 24 (ucast (b ! 0))))"

subsection \<open>Slice expressions\<close>

text \<open>
  \<^verbatim>\<open>data[lo:]\<close> panics unless \<^verbatim>\<open>0 <= lo <= len(data)\<close>, and \<^verbatim>\<open>data[lo:hi]\<close> panics unless
  \<^verbatim>\<open>0 <= lo <= hi <= cap(data)\<close>. The decoder reaches a slice expression with two bounds
  only after it has compared the upper bound with \<^verbatim>\<open>len(data)\<close>, so the bound taken
  here is \<^verbatim>\<open>len(data)\<close>.
\<close>

definition slice_from :: "bytes \<Rightarrow> int \<Rightarrow> error + bytes" where
  "slice_from data lo =
     (if 0 \<le> lo \<and> lo \<le> len data then Inr (drop (nat lo) data) else Inl Panic)"

definition slice_of :: "bytes \<Rightarrow> int \<Rightarrow> int \<Rightarrow> error + bytes" where
  "slice_of data lo hi =
     (if 0 \<le> lo \<and> lo \<le> hi \<and> hi \<le> len data
      then Inr (take (nat (hi - lo)) (drop (nat lo) data))
      else Inl Panic)"

text \<open>The expression \<^verbatim>\<open>binary.BigEndian.Uint32(data[offset:])\<close>.\<close>

definition Uint32_at :: "bytes \<Rightarrow> int \<Rightarrow> error + 32 word" where
  "Uint32_at data offset =
     (case slice_from data offset of Inl e \<Rightarrow> Inl e | Inr d \<Rightarrow> Uint32 d)"

subsection \<open>PackBatch\<close>

definition appendString :: "bytes \<Rightarrow> gostring \<Rightarrow> bytes" where
  "appendString buf s = AppendUint16 buf (of_nat (length s)) @ s"

text \<open>
  \<^verbatim>\<open>for k, v := range m\<close> visits every entry of the map exactly once, in an order the
  language leaves open and that may differ from one loop to the next. The order is an
  input of the model: \<open>iterates m kvs\<close> says that \<open>kvs\<close> is one of the orders in which
  the loop can visit \<open>m\<close>, and \<^verbatim>\<open>len(m)\<close> is then \<open>length kvs\<close>.
\<close>

definition iterates :: "gomap \<Rightarrow> entries \<Rightarrow> bool" where
  "iterates m kvs \<longleftrightarrow> distinct (map fst kvs) \<and> map_of kvs = m"

text \<open>The loop body \<^verbatim>\<open>buf = appendString(buf, k); buf = appendString(buf, v)\<close>.\<close>

fun appendEntries :: "bytes \<Rightarrow> entries \<Rightarrow> bytes" where
  "appendEntries buf [] = buf"
| "appendEntries buf ((k, v) # kvs) = appendEntries (appendString (appendString buf k) v) kvs"

text \<open>
  The loop over \<^verbatim>\<open>b.Records\<close>; every record comes with the order in which its metadata
  is visited.
\<close>

fun appendRecords :: "bytes \<Rightarrow> (entries \<times> Record) list \<Rightarrow> bytes" where
  "appendRecords buf [] = buf"
| "appendRecords buf ((morder, r) # rs) =
     (let buf1 = AppendUint32 buf (of_nat (length morder));
          buf2 = appendEntries buf1 morder;
          buf3 = AppendUint32 buf2 (of_nat (length (Payload r)));
          buf4 = buf3 @ Payload r
      in appendRecords buf4 rs)"

text \<open>
  \<open>PackBatch corder morders b\<close>: \<open>corder\<close> is the order in which \<^verbatim>\<open>range b.Context\<close>
  visits the context, \<open>morders\<close> holds, record by record, the order in which
  \<^verbatim>\<open>range r.Metadata\<close> visits the metadata. The size estimate at the head of the Go
  function only sets the capacity of the buffer and is left out. The returned error is
  always nil.
\<close>

definition PackBatch :: "entries \<Rightarrow> entries list \<Rightarrow> Batch \<Rightarrow> error + bytes" where
  "PackBatch corder morders b =
     (let buf0 = AppendUint32 [] magicNumber;
          buf1 = AppendUint32 buf0 version;
          buf2 = AppendUint32 buf1 (of_nat (length (Records b)));
          buf3 = AppendUint32 buf2 (of_nat (length corder));
          buf4 = appendEntries buf3 corder;
          buf5 = appendRecords buf4 (zip morders (Records b))
      in Inr buf5)"

definition visits :: "Batch \<Rightarrow> entries \<Rightarrow> entries list \<Rightarrow> bool" where
  "visits b corder morders \<longleftrightarrow>
     iterates (Context b) corder \<and>
     list_all2 (\<lambda>morder r. iterates (Metadata r) morder) morders (Records b)"

subsection \<open>UnpackBatch\<close>

text \<open>
  Offsets are \<^verbatim>\<open>int\<close>s of the target \<open>m\<close>. \<open>hi\<close> is the sum \<^verbatim>\<open>offset+int(length)\<close>, which
  the Go function writes out three times.
\<close>

definition readString :: "machine \<Rightarrow> bytes \<Rightarrow> int \<Rightarrow> error + (gostring \<times> int)" where
  "readString m data offset =
     (if int_add m offset 2 > len data
      then Inl (Err ''batch: string length extends beyond data'')
      else case slice_from data offset of
        Inl e \<Rightarrow> Inl e
      | Inr d \<Rightarrow>
         (case Uint16 d of
            Inl e \<Rightarrow> Inl e
          | Inr length16 \<Rightarrow>
             (let offset2 = int_add m offset 2;
                  hi = int_add m offset2 (int_of_uint m length16) in
              if hi > len data
              then Inl (Err ''batch: string extends beyond data'')
              else case slice_of data offset2 hi of
                Inl e \<Rightarrow> Inl e
              | Inr s \<Rightarrow> Inr (s, hi))))"

text \<open>
  The loops \<^verbatim>\<open>for i := uint32(0); i < count; i++\<close> run \<open>unat count\<close> times; the first
  argument after the data is the number of iterations still to run. An error return
  inside the loop leaves \<^verbatim>\<open>UnpackBatch\<close> with that error.
\<close>

fun readEntries :: "machine \<Rightarrow> bytes \<Rightarrow> nat \<Rightarrow> int \<Rightarrow> gomap \<Rightarrow> error + (gomap \<times> int)" where
  "readEntries m data 0 offset mp = Inr (mp, offset)"
| "readEntries m data (Suc n) offset mp =
     (case readString m data offset of
        Inl e \<Rightarrow> Inl e
      | Inr (key, newOffset) \<Rightarrow>
         (case readString m data newOffset of
            Inl e \<Rightarrow> Inl e
          | Inr (val, newOffset2) \<Rightarrow> readEntries m data n newOffset2 (mp(key \<mapsto> val))))"

text \<open>
  The loop over the records. \<^verbatim>\<open>records := make([]Record, recordCount)\<close> is filled from
  index 0 upwards; the list carried here holds the records stored so far. Every
  iteration asks the runtime for the metadata map, \<^verbatim>\<open>make(map[string]string, metadataCount)\<close>,
  as soon as it has read the count.
\<close>

fun readRecords ::
  "machine \<Rightarrow> bytes \<Rightarrow> nat \<Rightarrow> int \<Rightarrow> Record list \<Rightarrow> error + (Record list \<times> int)" where
  "readRecords m data 0 offset records = Inr (records, offset)"
| "readRecords m data (Suc n) offset records =
     (if int_add m offset 4 > len data then Inl (Err ''batch: unexpected end of data'')
      else case Uint32_at data offset of
        Inl e \<Rightarrow> Inl e
      | Inr metadataCount \<Rightarrow>
         (let offset1 = int_add m offset 4 in
          if \<not> grants m (Make_map (unat metadataCount)) then Inl OutOfMemory
          else case readEntries m data (unat metadataCount) offset1 Map.empty of
            Inl e \<Rightarrow> Inl e
          | Inr (metadata, offset2) \<Rightarrow>
             (if int_add m offset2 4 > len data then Inl (Err ''batch: unexpected end of data'')
              else case Uint32_at data offset2 of
                Inl e \<Rightarrow> Inl e
              | Inr payloadLen \<Rightarrow>
                 (let offset3 = int_add m offset2 4;
                      hi = int_add m offset3 (int_of_uint m payloadLen) in
                  if hi > len data
                  then Inl (Err ''batch: payload extends beyond data'')
                  else case slice_of data offset3 hi of
                    Inl e \<Rightarrow> Inl e
                  | Inr payload \<Rightarrow>
                     readRecords m data n hi
                       (records @ [\<lparr>Metadata = metadata, Payload = payload\<rparr>])))))"

text \<open>
  \<^verbatim>\<open>UnpackBatch\<close> on the target \<open>m\<close>. The two counts are read from the header and handed
  to \<^verbatim>\<open>make\<close> as they are: the context map is requested before the first entry is read,
  the slice of records before the first record is read. On every error path the Go
  function returns \<^verbatim>\<open>Batch{}\<close> together with the error; the model returns the error alone
  (\<open>Inl\<close>), so a failed decode carries no batch at all.
\<close>

definition UnpackBatch :: "machine \<Rightarrow> bytes \<Rightarrow> error + Batch" where
  "UnpackBatch m data =
     (if len data < 16 then Inl (Err ''batch: data too short'')
      else case Uint32_at data 0 of
        Inl e \<Rightarrow> Inl e
      | Inr magic \<Rightarrow>
         (let offset1 = int_add m 0 4 in
          if magic \<noteq> magicNumber then Inl (Err ''batch: invalid magic number'')
          else case Uint32_at data offset1 of
            Inl e \<Rightarrow> Inl e
          | Inr ver \<Rightarrow>
             (let offset2 = int_add m offset1 4 in
              if ver \<noteq> version then Inl (Err ''batch: unsupported version'')
              else case Uint32_at data offset2 of
                Inl e \<Rightarrow> Inl e
              | Inr recordCount \<Rightarrow>
                 (let offset3 = int_add m offset2 4 in
                  case Uint32_at data offset3 of
                    Inl e \<Rightarrow> Inl e
                  | Inr contextCount \<Rightarrow>
                     (let offset4 = int_add m offset3 4 in
                      if \<not> grants m (Make_map (unat contextCount)) then Inl OutOfMemory
                      else case readEntries m data (unat contextCount) offset4 Map.empty of
                        Inl e \<Rightarrow> Inl e
                      | Inr (context, offset5) \<Rightarrow>
                         (if \<not> grants m (Make_Records (unat recordCount)) then Inl OutOfMemory
                          else case readRecords m data (unat recordCount) offset5 [] of
                            Inl e \<Rightarrow> Inl e
                          | Inr (records, offset6) \<Rightarrow>
                              Inr \<lparr>Records = records, Context = context\<rparr>))))))"


subsection \<open>Frames and size limits\<close>

text \<open>Size limits of the frame: what the 16-bit and 32-bit length fields can hold.\<close>

definition short_map :: "gomap \<Rightarrow> bool" where
  "short_map m \<longleftrightarrow> (\<forall>k v. m k = Some v \<longrightarrow> length k < 65536 \<and> length v < 65536)"


definition fits_map :: "gomap \<Rightarrow> bool" where
  "fits_map m \<longleftrightarrow> card (dom m) < 2 ^ 32 \<and> short_map m"

definition fits_frame :: "Batch \<Rightarrow> bool" where
  "fits_frame b \<longleftrightarrow>
     length (Records b) < 2 ^ 32 \<and> fits_map (Context b) \<and>
     (\<forall>r \<in> set (Records b). fits_map (Metadata r) \<and> length (Payload r) < 2 ^ 32)"

definition sized_entries :: "entries \<Rightarrow> bool" where
  "sized_entries kvs \<longleftrightarrow>
     length kvs < 2 ^ 32 \<and> (\<forall>(k, v) \<in> set kvs. length k < 65536 \<and> length v < 65536)"

text \<open>
  The runtime of \<open>m\<close> grants what decoding the frame of the batch \<open>b\<close> asks for: a map
  for as many entries as the context has, a slice for as many records as the batch has,
  and for every record a map for as many entries as its metadata has.
\<close>

definition grants_batch :: "machine \<Rightarrow> Batch \<Rightarrow> bool" where
  "grants_batch m b \<longleftrightarrow>
     grants m (Make_map (card (dom (Context b)))) \<and>
     grants m (Make_Records (length (Records b))) \<and>
     (\<forall>r \<in> set (Records b). grants m (Make_map (card (dom (Metadata r)))))"

text \<open>The 16 bytes every frame starts with, for a record count and a context count.\<close>

definition header :: "32 word \<Rightarrow> 32 word \<Rightarrow> bytes" where
  "header rc cc = AppendUint32 [] magicNumber @ AppendUint32 [] version
                  @ AppendUint32 [] rc @ AppendUint32 [] cc"

text \<open>
  \<open>decoded kvs ors\<close> is the batch that a frame stands for which lists the context
  entries \<open>kvs\<close> and, record by record, the metadata entries and the payload \<open>ors\<close>; of
  two entries with the same key the later one counts.
\<close>

definition decoded :: "entries \<Rightarrow> (entries \<times> Record) list \<Rightarrow> Batch" where
  "decoded kvs ors =
     \<lparr>Records = map (\<lambda>(mo, r). \<lparr>Metadata = map_of (rev mo), Payload = Payload r\<rparr>) ors,
      Context = map_of (rev kvs)\<rparr>"




text \<open>A batch whose only context key is 65536 zero bytes long, and a small batch.\<close>

definition long_key :: gostring where
  "long_key = replicate 65536 0"

definition long_batch :: Batch where
  "long_batch = \<lparr>Records = [], Context = [long_key \<mapsto> []]\<rparr>"

definition small_batch :: Batch where
  "small_batch =
     \<lparr>Records = [\<lparr>Metadata = [[1] \<mapsto> [2, 3]], Payload = [4, 5, 6]\<rparr>,
                 \<lparr>Metadata = Map.empty, Payload = []\<rparr>],
      Context = [[7] \<mapsto> [8], [9, 9] \<mapsto> []]\<rparr>"


text \<open>
  A 16-byte buffer of zero bytes except byte 7, which is 1: its first four bytes are
  not the magic number.
\<close>

definition scenario_C :: bytes where
  "scenario_C = [0, 0, 0, 0, 0, 0, 0, 1, 0, 0, 0, 0, 0, 0, 0, 0]"

text \<open>
  A header that announces 4294967295 records and no context entry, with nothing after
  it; and a frame of one record without metadata whose payload length field holds 2^31,
  with nothing after it.
\<close>

definition huge_count_frame :: bytes where
  "huge_count_frame =
     [0x50, 0x4C, 0x4E, 0x58, 0, 0, 0, 1, 0xFF, 0xFF, 0xFF, 0xFF, 0, 0, 0, 0]"

definition huge_payload_frame :: bytes where
  "huge_payload_frame =
     [0x50, 0x4C, 0x4E, 0x58, 0, 0, 0, 1, 0, 0, 0, 1, 0, 0, 0, 0,
      0, 0, 0, 0, 0x80, 0, 0, 0]"


section \<open>Package session (the registry of the v1 servers)\<close>

text \<open>
  A \<^verbatim>\<open>*Session\<close> is an address into a heap of session objects. The \<^verbatim>\<open>data\<close> map of a
  session and its mutex are not used by any handler and are left out. \<open>cancelled\<close> says that
  the session's context has been cancelled (its \<^verbatim>\<open>Done()\<close> channel is closed).
  \<^verbatim>\<open>int32\<close> is a 32-bit word read as two's complement (\<open>sint\<close>).
\<close>

type_synonym ref = nat

record Session =
  ID :: string
  TenantID :: string
  Config :: bytes
  WindowSize :: "32 word"
  window :: "32 word"
  closed :: bool
  cancelled :: bool

definition ErrSessionNotFound :: error where
  "ErrSessionNotFound = Err ''session not found''"

definition ErrSessionClosed :: error where
  "ErrSessionClosed = Err ''session is closed''"

text \<open>\<^verbatim>\<open>uuid.New().String()\<close> is an input of the model.\<close>

definition NewSession :: "string \<Rightarrow> string \<Rightarrow> bytes \<Rightarrow> Session" where
  "NewSession uuid tenantID config =
     \<lparr>ID = uuid, TenantID = tenantID, Config = config, WindowSize = 20, window = 20,
      closed = False, cancelled = False\<rparr>"

text \<open>\<^verbatim>\<open>Session.Close\<close>: the compare-and-swap on \<^verbatim>\<open>closed\<close>, then \<^verbatim>\<open>cancel()\<close>. It returns nil.\<close>

definition Session_Close :: "Session \<Rightarrow> Session" where
  "Session_Close s = (if \<not> closed s then s\<lparr>closed := True, cancelled := True\<rparr> else s)"

definition IsClosed :: "Session \<Rightarrow> bool" where
  "IsClosed s = closed s"

text \<open>
  \<^verbatim>\<open>ConsumeWindow\<close> retries its compare-and-swap until it succeeds; the pass that succeeds
  is one atomic step: decrement a positive window.
\<close>

definition ConsumeWindow :: "Session \<Rightarrow> bool \<times> Session" where
  "ConsumeWindow s =
     (let current = window s in
      if sint current \<le> 0 then (False, s) else (True, s\<lparr>window := current - 1\<rparr>))"

definition UpdateWindow :: "Session \<Rightarrow> 32 word \<Rightarrow> Session" where
  "UpdateWindow s newWindow = s\<lparr>window := newWindow\<rparr>"

record Manager =
  sessions :: "string \<rightharpoonup> ref"
  count :: "32 word"

definition NewManager :: Manager where
  "NewManager = \<lparr>sessions = Map.empty, count = 0\<rparr>"

text \<open>
  The operations of the manager work on the heap of sessions and on the manager.
  \<open>Manager_Create p uuid\<close>: \<open>p\<close> is the address of the new session object.
\<close>

definition Manager_Create ::
  "ref \<Rightarrow> string \<Rightarrow> string \<Rightarrow> bytes \<Rightarrow> (ref \<Rightarrow> Session) \<Rightarrow> Manager
   \<Rightarrow> ref \<times> (ref \<Rightarrow> Session) \<times> Manager" where
  "Manager_Create p uuid tenantID config h m =
     (let s = NewSession uuid tenantID config in
      (p, h(p := s), m\<lparr>sessions := (sessions m)(ID s \<mapsto> p), count := count m + 1\<rparr>))"

definition Manager_Get :: "string \<Rightarrow> (ref \<Rightarrow> Session) \<Rightarrow> Manager \<Rightarrow> error + ref" where
  "Manager_Get sessionID h m =
     (case sessions m sessionID of
        None \<Rightarrow> Inl ErrSessionNotFound
      | Some p \<Rightarrow> if IsClosed (h p) then Inl ErrSessionClosed else Inr p)"

definition Manager_Close ::
  "string \<Rightarrow> (ref \<Rightarrow> Session) \<Rightarrow> Manager \<Rightarrow> error option \<times> (ref \<Rightarrow> Session) \<times> Manager" where
  "Manager_Close sessionID h m =
     (case sessions m sessionID of
        None \<Rightarrow> (Some ErrSessionNotFound, h, m)
      | Some p \<Rightarrow>
         (None, h(p := Session_Close (h p)),
          m\<lparr>sessions := (sessions m)(sessionID := None), count := count m - 1\<rparr>))"



section \<open>The v1 servers (packages source and sink)\<close>

text \<open>
  The plugin author's callbacks are the environment of the model. Their results are
  inputs of the handlers; every call of a callback is recorded in \<open>calls\<close>, with the
  instance it is made on (an instance is the address of the object the factory
  returned). \<open>logs\<close> is what the handlers write to the logger. The heap of sessions,
  \<open>calls\<close> and \<open>logs\<close> are kept with the fields of the \<^verbatim>\<open>Server\<close> struct, which are
  \<open>manager\<close> (the field \<^verbatim>\<open>sessions\<close>) and \<open>instances\<close>. The structs of the source, the
  sink and the processor server have the same fields.
\<close>

datatype spi_call = SPI_Init nat | SPI_ReadBatch nat | SPI_Write nat | SPI_Close nat

datatype log_entry = LogInfo string | LogWarn string | LogError string | LogDebug string

record Server =
  heap :: "ref \<Rightarrow> Session"
  manager :: Manager
  instances :: "string \<rightharpoonup> nat"
  calls :: "spi_call list"
  logs :: "log_entry list"

definition NewServer :: Server where
  "NewServer =
     \<lparr>heap = (\<lambda>p. NewSession [] [] []), manager = NewManager, instances = Map.empty,
      calls = [], logs = []\<rparr>"

text \<open>
  \<^verbatim>\<open>fmt.Errorf(pfx + "%w", err)\<close>; a panic and the end of the process are not error values
  and pass through.
\<close>

definition wrap_error :: "string \<Rightarrow> error \<Rightarrow> error" where
  "wrap_error pfx e =
     (case e of Err msg \<Rightarrow> Err (pfx @ msg) | Panic \<Rightarrow> Panic | OutOfMemory \<Rightarrow> OutOfMemory)"

text \<open>
  \<open>Source_CreateSession spi init_result p uuid\<close>: \<open>spi\<close> is the instance the factory
  returns, \<open>init_result\<close> what its \<^verbatim>\<open>Init\<close> returns, \<open>p\<close> and \<open>uuid\<close> the address and the
  identifier of the new session.
\<close>

definition Source_CreateSession ::
  "nat \<Rightarrow> error option \<Rightarrow> ref \<Rightarrow> string \<Rightarrow> string \<Rightarrow> bytes \<Rightarrow> Server
   \<Rightarrow> (error + string) \<times> Server" where
  "Source_CreateSession spi init_result p uuid tenantId configJson srv =
     (let srv1 = srv\<lparr>calls := calls srv @ [SPI_Init spi]\<rparr> in
      case init_result of
        Some err \<Rightarrow> (Inl (wrap_error ''SPI init failed: '' err), srv1)
      | None \<Rightarrow>
         (case Manager_Create p uuid tenantId configJson (heap srv1) (manager srv1) of
            (sess, h, m) \<Rightarrow>
              (Inr (ID (h sess)),
               srv1\<lparr>heap := h, manager := m,
                    instances := (instances srv1)(ID (h sess) \<mapsto> spi),
                    logs := logs srv1 @ [LogInfo ''Source session created'']\<rparr>)))"

text \<open>
  One iteration of the loop of \<^verbatim>\<open>source.Server.OpenStream\<close>, for the session at address
  \<open>p\<close> and its instance \<open>spi\<close>. \<open>env\<close> is what the environment presents during the
  iteration: whether the context of the stream is done, what \<^verbatim>\<open>ReadBatch\<close> returns if
  it is called, the orders in which \<^verbatim>\<open>PackBatch\<close> visits the maps of that batch, and
  what \<^verbatim>\<open>stream.Send\<close> returns if it is called. The second component of the state
  is the list of frames sent on the stream so far.
\<close>

record iter_env =
  stream_done :: bool
  read_result :: "error + Batch"
  context_order :: entries
  metadata_orders :: "entries list"
  send_result :: "error option"

datatype outcome = Continue | Return "error option" | Blocked

definition Source_OpenStream_iter ::
  "ref \<Rightarrow> nat \<Rightarrow> iter_env \<Rightarrow> Server \<times> bytes list \<Rightarrow> outcome \<times> Server \<times> bytes list" where
  "Source_OpenStream_iter p spi env st =
     (case st of (srv, sent) \<Rightarrow>
      if cancelled (heap srv p) \<or> stream_done env then (Return None, srv, sent)
      else case ConsumeWindow (heap srv p) of
        (False, sess) \<Rightarrow> (Continue, srv, sent)
      | (True, sess) \<Rightarrow>
         (let srv1 = srv\<lparr>heap := (heap srv)(p := sess),
                         calls := calls srv @ [SPI_ReadBatch spi]\<rparr> in
          case read_result env of
            Inl Panic \<Rightarrow> (Return (Some Panic), srv1, sent)
          | Inl OutOfMemory \<Rightarrow> (Return (Some OutOfMemory), srv1, sent)
          | Inl (Err msg) \<Rightarrow>
             if msg = ''EOF'' then (Return None, srv1, sent)
             else (Continue, srv1\<lparr>logs := logs srv1 @ [LogError ''ReadBatch error'']\<rparr>, sent)
          | Inr b \<Rightarrow>
             if length (Records b) = 0 then (Continue, srv1, sent)
             else case PackBatch (context_order env) (metadata_orders env) b of
               Inl err \<Rightarrow>
                 (Continue, srv1\<lparr>logs := logs srv1 @ [LogError ''Failed to pack batch'']\<rparr>, sent)
             | Inr packed \<Rightarrow>
                (case send_result env of
                   Some err \<Rightarrow> (Return (Some err), srv1, sent)
                 | None \<Rightarrow>
                    (Continue, srv1\<lparr>logs := logs srv1 @ [LogDebug ''Sent batch'']\<rparr>,
                     sent @ [packed]))))"

text \<open>
  The loop runs as long as the environment's script has iterations; \<open>Blocked\<close> is the
  result when the script ends with the loop still running.
\<close>

fun Source_OpenStream_loop ::
  "ref \<Rightarrow> nat \<Rightarrow> iter_env list \<Rightarrow> Server \<times> bytes list \<Rightarrow> outcome \<times> Server \<times> bytes list" where
  "Source_OpenStream_loop p spi [] st = (Blocked, st)"
| "Source_OpenStream_loop p spi (env # envs) st =
     (case Source_OpenStream_iter p spi env st of
        (Continue, st') \<Rightarrow> Source_OpenStream_loop p spi envs st'
      | (r, st') \<Rightarrow> (r, st'))"

definition Source_OpenStream ::
  "string \<Rightarrow> 32 word \<Rightarrow> iter_env list \<Rightarrow> Server \<Rightarrow> outcome \<times> Server \<times> bytes list" where
  "Source_OpenStream sessionId windowSize envs srv =
     (case Manager_Get sessionId (heap srv) (manager srv) of
        Inl err \<Rightarrow> (Return (Some err), srv, [])
      | Inr sess \<Rightarrow>
         (case instances srv sessionId of
            None \<Rightarrow>
              (Return (Some (Err (''SPI instance not found for session '' @ sessionId))), srv, [])
          | Some spi \<Rightarrow>
             (let srv1 = srv\<lparr>heap := (heap srv)(sess := UpdateWindow (heap srv sess) windowSize),
                             logs := logs srv @ [LogInfo ''Source stream opened'']\<rparr>
              in Source_OpenStream_loop sess spi envs (srv1, []))))"

record AckResponse =
  Success :: bool
  Error :: string

definition Source_Ack :: "string \<Rightarrow> 32 word \<Rightarrow> 32 word \<Rightarrow> Server \<Rightarrow> AckResponse \<times> Server" where
  "Source_Ack sessionId processed newWindow srv =
     (case Manager_Get sessionId (heap srv) (manager srv) of
        Inl err \<Rightarrow>
          (\<lparr>Success = False,
            Error = (case err of Err msg \<Rightarrow> msg | Panic \<Rightarrow> [] | OutOfMemory \<Rightarrow> [])\<rparr>, srv)
      | Inr sess \<Rightarrow>
          (\<lparr>Success = True, Error = []\<rparr>,
           srv\<lparr>heap := (heap srv)(sess := UpdateWindow (heap srv sess) newWindow),
               logs := logs srv @ [LogDebug ''ACK received'']\<rparr>))"

text \<open>
  \<open>Source_CloseSession sessionId close_result\<close>: \<open>close_result\<close> is what the instance's
  \<^verbatim>\<open>Close\<close> returns if it is called. The handler always returns an empty response and
  a nil error; the result of the model is that error.
\<close>

definition Source_CloseSession :: "string \<Rightarrow> error option \<Rightarrow> Server \<Rightarrow> error option \<times> Server" where
  "Source_CloseSession sessionId close_result srv =
     (let srv1 =
        (case instances srv sessionId of
           Some spi \<Rightarrow>
             (let srv0 = srv\<lparr>instances := (instances srv)(sessionId := None),
                             calls := calls srv @ [SPI_Close spi]\<rparr> in
              case close_result of
                Some err \<Rightarrow> srv0\<lparr>logs := logs srv0 @ [LogWarn ''SPI close error'']\<rparr>
              | None \<Rightarrow> srv0)
         | None \<Rightarrow> srv)
      in case Manager_Close sessionId (heap srv1) (manager srv1) of
        (Some err, h, m) \<Rightarrow>
          (None, srv1\<lparr>heap := h, manager := m,
                      logs := logs srv1 @ [LogWarn ''Session close error'']\<rparr>)
      | (None, h, m) \<Rightarrow>
          (None, srv1\<lparr>heap := h, manager := m,
                      logs := logs srv1 @ [LogInfo ''Source session closed'']\<rparr>))"

text \<open>
  \<^verbatim>\<open>sink.Server.Write\<close> on the target \<open>mach\<close>. The environment's script holds, for every
  message the stream delivers, the message (\<open>req_session\<close>, \<open>req_packed\<close>), what the
  instance's \<^verbatim>\<open>Write\<close> returns if it is called and what \<^verbatim>\<open>stream.Send\<close> returns if it is
  called. When the script is used up, \<^verbatim>\<open>stream.Recv\<close> fails (the peer has closed the
  stream) and the handler returns nil. The list carried along holds the acknowledgments
  that reached the stream; a \<^verbatim>\<open>Send\<close> that fails delivers nothing. Nothing in the handler
  recovers from a panic, and nothing can recover from the end of the process: when
  \<^verbatim>\<open>UnpackBatch\<close> or the callback ends in one of them, so does the handler, whatever
  messages are still to come.
\<close>

record write_step =
  req_session :: string
  req_packed :: bytes
  write_result :: "error option"
  ack_send_result :: "error option"

fun Sink_Write ::
  "machine \<Rightarrow> write_step list \<Rightarrow> Server \<times> AckResponse list
   \<Rightarrow> error option \<times> Server \<times> AckResponse list" where
  "Sink_Write mach [] st = (None, st)"
| "Sink_Write mach (x # xs) (srv, acks) =
     (case instances srv (req_session x) of
        None \<Rightarrow> Sink_Write mach xs (srv, acks)
      | Some spi \<Rightarrow>
         (case UnpackBatch mach (req_packed x) of
            Inl Panic \<Rightarrow> (Some Panic, srv, acks)
          | Inl OutOfMemory \<Rightarrow> (Some OutOfMemory, srv, acks)
          | Inl (Err msg) \<Rightarrow>
              Sink_Write mach xs
                (srv\<lparr>logs := logs srv @ [LogError ''Failed to unpack batch'']\<rparr>, acks)
          | Inr b \<Rightarrow>
             (let srv1 = srv\<lparr>calls := calls srv @ [SPI_Write spi]\<rparr> in
              case write_result x of
                Some Panic \<Rightarrow> (Some Panic, srv1, acks)
              | Some OutOfMemory \<Rightarrow> (Some OutOfMemory, srv1, acks)
              | Some (Err msg) \<Rightarrow>
                  Sink_Write mach xs
                    (srv1\<lparr>logs := logs srv1 @ [LogError ''Write error'']\<rparr>,
                     (case ack_send_result x of
                        None \<Rightarrow> acks @ [\<lparr>Success = False, Error = msg\<rparr>]
                      | Some err \<Rightarrow> acks))
              | None \<Rightarrow>
                 (case ack_send_result x of
                    Some err \<Rightarrow> (Some err, srv1, acks)
                  | None \<Rightarrow>
                      Sink_Write mach xs (srv1, acks @ [\<lparr>Success = True, Error = []\<rparr>])))))"



section \<open>The v4 runtime (packages flow, session and runtime under internal)\<close>

subsection \<open>flow.Window\<close>

text \<open>
  The counter is a Go \<^verbatim>\<open>int\<close>: a 64-bit word read as two's complement. \<^verbatim>\<open>Release\<close> and
  the body of \<^verbatim>\<open>Acquire\<close> run under the mutex of the window, so each is one atomic
  step. \<open>try_Acquire\<close> is one pass of \<^verbatim>\<open>Acquire\<close> with the mutex held: \<open>None\<close> when the
  caller has to park in \<^verbatim>\<open>cond.Wait\<close>.
\<close>

record Window =
  wvalue :: "64 word"

definition NewWindow :: "64 word \<Rightarrow> Window" where
  "NewWindow init = \<lparr>wvalue = init\<rparr>"

definition Release :: "Window \<Rightarrow> 64 word \<Rightarrow> Window" where
  "Release w n = w\<lparr>wvalue := wvalue w + n\<rparr>"

definition try_Acquire :: "Window \<Rightarrow> Window option" where
  "try_Acquire w = (if sint (wvalue w) \<le> 0 then None else Some (w\<lparr>wvalue := wvalue w - 1\<rparr>))"

subsection \<open>session.Manager[T]\<close>

definition Registry_Add :: "(string \<rightharpoonup> 'a) \<Rightarrow> string \<Rightarrow> 'a \<Rightarrow> (string \<rightharpoonup> 'a)" where
  "Registry_Add m sid v = m(sid \<mapsto> v)"

definition Registry_Get :: "(string \<rightharpoonup> 'a) \<Rightarrow> string \<Rightarrow> 'a option" where
  "Registry_Get m sid = m sid"

definition Registry_Remove :: "(string \<rightharpoonup> 'a) \<Rightarrow> string \<Rightarrow> (string \<rightharpoonup> 'a)" where
  "Registry_Remove m sid = m(sid := None)"

subsection \<open>runtime.SourceServer\<close>

text \<open>
  A \<^verbatim>\<open>sourceSession\<close> holds its instance and the address of its window; \<open>windows\<close> is the
  heap of windows. The codec (gob) is outside the repository: \<^verbatim>\<open>codec.Pack\<close> is a
  parameter of the model, and a batch is a value of any type.
\<close>

record sourceSession =
  spi :: nat
  window_p :: ref

record SourceServer =
  windows :: "ref \<Rightarrow> Window"
  registry :: "string \<rightharpoonup> sourceSession"
  spi_calls :: "spi_call list"

definition NewSourceServer :: SourceServer where
  "NewSourceServer = \<lparr>windows = (\<lambda>p. NewWindow 0), registry = Map.empty, spi_calls = []\<rparr>"

definition SourceServer_CreateSession ::
  "nat \<Rightarrow> error option \<Rightarrow> ref \<Rightarrow> string \<Rightarrow> SourceServer \<Rightarrow> (error + string) \<times> SourceServer" where
  "SourceServer_CreateSession inst init_result p sid srv =
     (let srv1 = srv\<lparr>spi_calls := spi_calls srv @ [SPI_Init inst]\<rparr> in
      case init_result of
        Some err \<Rightarrow> (Inl err, srv1)
      | None \<Rightarrow>
          (Inr sid,
           srv1\<lparr>windows := (windows srv1)(p := NewWindow 0),
                registry := Registry_Add (registry srv1) sid \<lparr>spi = inst, window_p = p\<rparr>\<rparr>))"

text \<open>
  \<^verbatim>\<open>SourceServer.Ack\<close>: \<^verbatim>\<open>int(req.NewWindow)\<close> sign-extends the \<^verbatim>\<open>int32\<close> of the request.
  The handler returns an empty response and a nil error whether the session exists or
  not; the result of the model is that error.
\<close>

definition SourceServer_Ack :: "string \<Rightarrow> 32 word \<Rightarrow> SourceServer \<Rightarrow> error option \<times> SourceServer" where
  "SourceServer_Ack sessionId newWindow srv =
     (case Registry_Get (registry srv) sessionId of
        Some sess \<Rightarrow>
          (None, srv\<lparr>windows := (windows srv)
                   (window_p sess := Release (windows srv (window_p sess)) (scast newWindow))\<rparr>)
      | None \<Rightarrow> (None, srv))"

definition SourceServer_CloseSession :: "string \<Rightarrow> SourceServer \<Rightarrow> error option \<times> SourceServer" where
  "SourceServer_CloseSession sessionId srv =
     (case Registry_Get (registry srv) sessionId of
        Some sess \<Rightarrow>
          (None, srv\<lparr>spi_calls := spi_calls srv @ [SPI_Close (spi sess)],
                     registry := Registry_Remove (registry srv) sessionId\<rparr>)
      | None \<Rightarrow> (None, srv))"

text \<open>
  What can happen in the process while a caller is parked in \<^verbatim>\<open>Acquire\<close>: an \<^verbatim>\<open>Ack\<close>
  call, a \<^verbatim>\<open>CloseSession\<close> call, or the cancellation of the stream's context by the
  transport. The last changes nothing in the server: no code of the runtime reads the
  context of the stream or is registered on it.
\<close>

datatype event = Ev_Ack string "32 word" | Ev_CloseSession string | Ev_TransportCancelled

fun occur :: "event \<Rightarrow> SourceServer \<Rightarrow> SourceServer" where
  "occur (Ev_Ack sid n) srv = snd (SourceServer_Ack sid n srv)"
| "occur (Ev_CloseSession sid) srv = snd (SourceServer_CloseSession sid srv)"
| "occur Ev_TransportCancelled srv = srv"

text \<open>
  \<^verbatim>\<open>Window.Acquire\<close> on the window at address \<open>p\<close>: the loop
  \<^verbatim>\<open>for w.value <= 0 { w.cond.Wait() }\<close>, then the decrement. While the caller is parked
  the events of the script occur one after the other. \<open>None\<close>: the script is used up
  and the caller is still parked. Otherwise the state after the decrement and the
  events that have not occurred yet.
\<close>

fun Acquire :: "ref \<Rightarrow> event list \<Rightarrow> SourceServer \<Rightarrow> (SourceServer \<times> event list) option" where
  "Acquire p [] srv =
     (case try_Acquire (windows srv p) of
        Some w \<Rightarrow> Some (srv\<lparr>windows := (windows srv)(p := w)\<rparr>, [])
      | None \<Rightarrow> None)"
| "Acquire p (ev # evs) srv =
     (case try_Acquire (windows srv p) of
        Some w \<Rightarrow> Some (srv\<lparr>windows := (windows srv)(p := w)\<rparr>, ev # evs)
      | None \<Rightarrow> Acquire p evs (occur ev srv))"

text \<open>
  One iteration of the loop of \<^verbatim>\<open>SourceServer.OpenStream\<close> for the session \<open>sess\<close>:
  \<open>evs\<close> are the events still to occur, \<open>read_result4\<close> is what \<^verbatim>\<open>ReadBatch\<close> returns
  if it is called, \<open>send_result4\<close> what \<^verbatim>\<open>stream.Send\<close> returns if it is called. When
  the caller is still parked in \<^verbatim>\<open>Acquire\<close> at the end of the script, every event of the
  script has occurred, and the state is the one they leave.
\<close>

record 'b iter_env4 =
  read_result4 :: "error + 'b"
  send_result4 :: "error option"

definition SourceServer_OpenStream_iter ::
  "('b \<Rightarrow> error + bytes) \<Rightarrow> sourceSession \<Rightarrow> 'b iter_env4 \<Rightarrow> event list
   \<Rightarrow> SourceServer \<times> bytes list \<Rightarrow> outcome \<times> event list \<times> SourceServer \<times> bytes list" where
  "SourceServer_OpenStream_iter codec_Pack sess env evs st =
     (case st of (srv, sent) \<Rightarrow>
      case Acquire (window_p sess) evs srv of
        None \<Rightarrow> (Blocked, [], fold occur evs srv, sent)
      | Some (srv1, evs1) \<Rightarrow>
         (let srv2 = srv1\<lparr>spi_calls := spi_calls srv1 @ [SPI_ReadBatch (spi sess)]\<rparr> in
          case read_result4 env of
            Inl err \<Rightarrow> (Return (Some err), evs1, srv2, sent)
          | Inr b \<Rightarrow>
             (case codec_Pack b of
                Inl err \<Rightarrow> (Return (Some err), evs1, srv2, sent)
              | Inr packed \<Rightarrow>
                 (case send_result4 env of
                    Some err \<Rightarrow> (Return (Some err), evs1, srv2, sent)
                  | None \<Rightarrow> (Continue, evs1, srv2, sent @ [packed])))))"

fun SourceServer_OpenStream_loop ::
  "('b \<Rightarrow> error + bytes) \<Rightarrow> sourceSession \<Rightarrow> 'b iter_env4 list \<Rightarrow> event list
   \<Rightarrow> SourceServer \<times> bytes list \<Rightarrow> outcome \<times> event list \<times> SourceServer \<times> bytes list" where
  "SourceServer_OpenStream_loop codec_Pack sess [] evs st = (Blocked, evs, st)"
| "SourceServer_OpenStream_loop codec_Pack sess (env # envs) evs st =
     (case SourceServer_OpenStream_iter codec_Pack sess env evs st of
        (Continue, evs1, st1) \<Rightarrow> SourceServer_OpenStream_loop codec_Pack sess envs evs1 st1
      | (r, evs1, st1) \<Rightarrow> (r, evs1, st1))"

text \<open>
  \<^verbatim>\<open>SourceServer.OpenStream\<close>: an unknown session ends the call with a nil error;
  otherwise the initial window is released and the loop starts.
\<close>

definition SourceServer_OpenStream ::
  "('b \<Rightarrow> error + bytes) \<Rightarrow> string \<Rightarrow> 32 word \<Rightarrow> 'b iter_env4 list \<Rightarrow> event list
   \<Rightarrow> SourceServer \<Rightarrow> outcome \<times> event list \<times> SourceServer \<times> bytes list" where
  "SourceServer_OpenStream codec_Pack sessionId initialWindow envs evs srv =
     (case Registry_Get (registry srv) sessionId of
        None \<Rightarrow> (Return None, evs, srv, [])
      | Some sess \<Rightarrow>
         (let srv1 = srv\<lparr>windows := (windows srv)
                (window_p sess := Release (windows srv (window_p sess)) (scast initialWindow))\<rparr>
          in SourceServer_OpenStream_loop codec_Pack sess envs evs (srv1, [])))"

subsection \<open>runtime.SinkServer\<close>

text \<open>
  \<^verbatim>\<open>SinkServer.WriteBatch\<close> is a unary call. \<open>md\<close> is the metadata of the incoming
  context (\<open>None\<close> when there is none), \<open>codec_Unpack\<close> the codec, \<open>write_result4\<close> what
  the instance's \<^verbatim>\<open>WriteBatch\<close> returns if it is called. A gRPC status error is
  modelled by its message. The result is the error of the call, or the (empty)
  acknowledgment.
\<close>

record SinkServer =
  sink_registry :: "string \<rightharpoonup> nat"
  sink_calls :: "spi_call list"

definition SinkServer_WriteBatch ::
  "(bytes \<Rightarrow> error + 'b) \<Rightarrow> (string \<rightharpoonup> string list) option \<Rightarrow> bytes \<Rightarrow> error option
   \<Rightarrow> SinkServer \<Rightarrow> (error + unit) \<times> SinkServer" where
  "SinkServer_WriteBatch codec_Unpack md payload write_result4 srv =
     (case md of
        None \<Rightarrow> (Inl (Err ''rpc error: code = InvalidArgument desc = missing metadata''), srv)
      | Some m \<Rightarrow>
         (let ids = (case m ''x-planx-session-id'' of None \<Rightarrow> [] | Some vs \<Rightarrow> vs) in
          if length ids = 0
          then (Inl (Err ''rpc error: code = InvalidArgument desc = missing session id in metadata''),
                srv)
          else case Registry_Get (sink_registry srv) (hd ids) of
            None \<Rightarrow> (Inl (Err ''rpc error: code = NotFound desc = session not found''), srv)
          | Some inst \<Rightarrow>
             (case codec_Unpack payload of
                Inl err \<Rightarrow> (Inl err, srv)
              | Inr b \<Rightarrow>
                 (let srv1 = srv\<lparr>sink_calls := sink_calls srv @ [SPI_Write inst]\<rparr> in
                  case write_result4 of
                    Some err \<Rightarrow> (Inl err, srv1)
                  | None \<Rightarrow> (Inr (), srv1)))))"




section \<open>Concrete servers, environments and requests\<close>

text \<open>
  \<open>returned r\<close>: the call came back with a result or with an error, it ended neither
  in a panic nor with the process.
\<close>

definition returned :: "error + 'a \<Rightarrow> bool" where
  "returned r \<longleftrightarrow> r \<noteq> Inl Panic \<and> r \<noteq> Inl OutOfMemory"

text \<open>
  The acknowledgment the sink handler owes a message it serves, and the messages it
  serves: those whose session has an instance and whose frame decodes. \<open>sends_fine\<close>
  says that the transport accepts the acknowledgment and that the callback returns.
\<close>

definition served :: "machine \<Rightarrow> Server \<Rightarrow> write_step \<Rightarrow> bool" where
  "served mach srv x \<longleftrightarrow>
     instances srv (req_session x) \<noteq> None \<and> (\<exists>b. UnpackBatch mach (req_packed x) = Inr b)"

definition ack_of :: "write_step \<Rightarrow> AckResponse" where
  "ack_of x =
     (case write_result x of
        None \<Rightarrow> \<lparr>Success = True, Error = []\<rparr>
      | Some (Err msg) \<Rightarrow> \<lparr>Success = False, Error = msg\<rparr>
      | Some Panic \<Rightarrow> \<lparr>Success = False, Error = []\<rparr>
      | Some OutOfMemory \<Rightarrow> \<lparr>Success = False, Error = []\<rparr>)"

definition sends_fine :: "write_step \<Rightarrow> bool" where
  "sends_fine x \<longleftrightarrow>
     ack_send_result x = None \<and> write_result x \<noteq> Some Panic
     \<and> write_result x \<noteq> Some OutOfMemory"

text \<open>Close requests for one session, one after the other, each with the result of the
  teardown hook should it be called.\<close>

definition close_all :: "string \<Rightarrow> error option list \<Rightarrow> Server \<Rightarrow> Server" where
  "close_all sid cs srv = fold (\<lambda>c s. snd (Source_CloseSession sid c s)) cs srv"

text \<open>An event that releases credit.\<close>

fun is_Ack :: "event \<Rightarrow> bool" where
  "is_Ack (Ev_Ack sid n) = True"
| "is_Ack (Ev_CloseSession sid) = False"
| "is_Ack Ev_TransportCancelled = False"

text \<open>
  A v1 source server with one session \<open>''s1''\<close> (at address 0, instance 1, default
  window 20), and the same server after an \<^verbatim>\<open>Ack\<close> that sets the window to 1.
\<close>

definition srv1_one :: Server where
  "srv1_one = snd (Source_CreateSession 1 None 0 ''s1'' ''tenant'' [] NewServer)"

definition srv1_w1 :: Server where
  "srv1_w1 = snd (Source_Ack ''s1'' 0 1 srv1_one)"

text \<open>
  A v4 source server with one session \<open>''s1''\<close> (window at address 0, instance 1,
  credit 0), the same server after an \<^verbatim>\<open>Ack\<close> of 1, and a v4 sink server with one
  session.
\<close>

definition srv4_one :: SourceServer where
  "srv4_one = snd (SourceServer_CreateSession 1 None 0 ''s1'' NewSourceServer)"

definition srv4_credit :: SourceServer where
  "srv4_credit = snd (SourceServer_Ack ''s1'' 1 srv4_one)"

definition sink4_one :: SinkServer where
  "sink4_one = \<lparr>sink_registry = [''s1'' \<mapsto> 1], sink_calls = []\<rparr>"

text \<open>
  The payload of the concrete calls of \<^verbatim>\<open>WriteBatch\<close>: the gob stream of an interface value
  that holds the string \<^verbatim>\<open>"hi"\<close> (the length of the message, the type id of interface
  values, the name of the concrete type, its type id, the length of the value and the
  value). \<open>codec_stub\<close> stands for the codec in these calls: it decodes that payload, and
  any other payload it rejects, as the decoder of gob rejects the empty payload, with the
  end of the input.
\<close>

definition gob_hi :: bytes where
  "gob_hi = [0x0F, 0x10, 0x00, 0x06, 0x73, 0x74, 0x72, 0x69, 0x6E, 0x67, 0x0C, 0x04, 0x00,
             0x02, 0x68, 0x69]"

definition codec_stub :: "bytes \<Rightarrow> error + gostring" where
  "codec_stub p = (if p = gob_hi then Inr [0x68, 0x69] else Inl (Err ''EOF''))"

text \<open>
  Iterations of the v1 read loop: the callback fails, reports the end of the input,
  returns an empty batch, returns a batch of two records.
\<close>

definition env_fail :: iter_env where
  "env_fail = \<lparr>stream_done = False, read_result = Inl (Err ''boom''), context_order = [],
               metadata_orders = [], send_result = None\<rparr>"

definition env_eof :: iter_env where
  "env_eof = \<lparr>stream_done = False, read_result = Inl (Err ''EOF''), context_order = [],
              metadata_orders = [], send_result = None\<rparr>"

definition env_empty :: iter_env where
  "env_empty = \<lparr>stream_done = False, read_result = Inr \<lparr>Records = [], Context = Map.empty\<rparr>,
                context_order = [], metadata_orders = [], send_result = None\<rparr>"

definition env_batch :: iter_env where
  "env_batch = \<lparr>stream_done = False, read_result = Inr small_batch,
                context_order = [([9, 9], []), ([7], [8])],
                metadata_orders = [[([1], [2, 3])], []], send_result = None\<rparr>"

text \<open>
  Messages on the stream of the v1 sink: one that is written, one whose write fails,
  one for a session that does not exist, one whose frame does not start with the magic
  number.
\<close>

definition step_ok :: write_step where
  "step_ok = \<lparr>req_session = ''s1'', req_packed = header 0 0, write_result = None,
              ack_send_result = None\<rparr>"

definition step_fail :: write_step where
  "step_fail = \<lparr>req_session = ''s1'', req_packed = header 0 0,
                write_result = Some (Err ''disk full''), ack_send_result = None\<rparr>"

definition step_unknown :: write_step where
  "step_unknown = \<lparr>req_session = ''nobody'', req_packed = header 0 0, write_result = None,
                   ack_send_result = None\<rparr>"

definition step_malformed :: write_step where
  "step_malformed = \<lparr>req_session = ''s1'', req_packed = scenario_C, write_result = None,
                     ack_send_result = None\<rparr>"

text \<open>A message whose frame is the header that announces 4294967295 records.\<close>

definition step_huge :: write_step where
  "step_huge = \<lparr>req_session = ''s1'', req_packed = huge_count_frame, write_result = None,
                ack_send_result = None\<rparr>"



section \<open>The wire format: encoding and decoding\<close>

subsection \<open>What the encoder writes\<close>

lemma Uint16_AppendUint16: "Uint16 (AppendUint16 [] v @ rest) = Inr v"
proof -
  have "ucast (ucast v :: byte) OR push_bit 8 (ucast (ucast (drop_bit 8 v) :: byte)) = v"
    (is "?l = _")
  proof (rule bit_word_eqI)
    fix n assume "n < LENGTH(16)"
    then have n: "n < 16" by simp
    consider "n < 8" | "8 \<le> n" "n < 16"
      using n by linarith
    then show "bit ?l n = bit v n"
      by cases (auto simp add: bit_simps)
  qed
  then show ?thesis
    by (simp add: Uint16_def AppendUint16_def)
qed

lemma Uint32_AppendUint32: "Uint32 (AppendUint32 [] v @ rest) = Inr v"
proof -
  have "ucast (ucast v :: byte) OR push_bit 8 (ucast (ucast (drop_bit 8 v) :: byte))
        OR push_bit 16 (ucast (ucast (drop_bit 16 v) :: byte))
        OR push_bit 24 (ucast (ucast (drop_bit 24 v) :: byte)) = v" (is "?l = _")
  proof (rule bit_word_eqI)
    fix n assume "n < LENGTH(32)"
    then have n: "n < 32" by simp
    consider "n < 8" | "8 \<le> n" "n < 16" | "16 \<le> n" "n < 24" | "24 \<le> n" "n < 32"
      using n by linarith
    then show "bit ?l n = bit v n"
      by cases (auto simp add: bit_simps)
  qed
  then show ?thesis
    by (simp add: Uint32_def AppendUint32_def)
qed

lemma AppendUint16_append: "AppendUint16 buf v = buf @ AppendUint16 [] v"
  by (simp add: AppendUint16_def)

lemma AppendUint32_append: "AppendUint32 buf v = buf @ AppendUint32 [] v"
  by (simp add: AppendUint32_def)

lemma length_AppendUint16 [simp]: "length (AppendUint16 buf v) = length buf + 2"
  by (simp add: AppendUint16_def)

lemma length_AppendUint32 [simp]: "length (AppendUint32 buf v) = length buf + 4"
  by (simp add: AppendUint32_def)

lemma appendString_append: "appendString buf s = buf @ appendString [] s"
  by (simp add: appendString_def AppendUint16_def)

lemma length_appendString [simp]: "length (appendString buf s) = length buf + 2 + length s"
  by (simp add: appendString_def)

lemma appendEntries_append: "appendEntries buf kvs = buf @ appendEntries [] kvs"
proof (induction kvs arbitrary: buf)
  case Nil
  show ?case by simp
next
  case (Cons kv kvs)
  obtain k v where kv: "kv = (k, v)" by (cases kv)
  have "appendEntries buf (kv # kvs) = appendEntries (appendString (appendString buf k) v) kvs"
    by (simp add: kv)
  also have "\<dots> = appendString (appendString buf k) v @ appendEntries [] kvs"
    by (rule Cons.IH)
  also have "\<dots> = buf @ appendString (appendString [] k) v @ appendEntries [] kvs"
    by (metis appendString_append append.assoc append_Nil)
  also have "\<dots> = buf @ appendEntries [] (kv # kvs)"
    using Cons.IH [of "appendString (appendString [] k) v"] by (simp add: kv)
  finally show ?case .
qed

lemma appendRecords_append: "appendRecords buf rs = buf @ appendRecords [] rs"
proof (induction rs arbitrary: buf)
  case Nil
  show ?case by simp
next
  case (Cons or rs)
  obtain mo r where p: "or = (mo, r)" by (cases or)
  define enc where "enc = AppendUint32 [] (of_nat (length mo)) @ appendEntries [] mo
      @ AppendUint32 [] (of_nat (length (Payload r))) @ Payload r"
  have e: "AppendUint32 (appendEntries (AppendUint32 b (of_nat (length mo))) mo)
            (of_nat (length (Payload r))) @ Payload r = b @ enc" for b
    unfolding enc_def
    by (metis AppendUint32_append appendEntries_append append.assoc)
  have one: "appendRecords b (or # rs) = appendRecords (b @ enc) rs" for b
    unfolding p by (simp add: Let_def e)
  show ?case
    using Cons.IH [of "buf @ enc"] Cons.IH [of "[] @ enc"] by (simp add: one)
qed

lemma Uint16_appendString: "Uint16 (appendString [] s @ post) = Inr (of_nat (length s))"
  by (simp add: appendString_def Uint16_AppendUint16)

lemma appendEntries_Cons:
  "appendEntries [] ((k, v) # kvs) = appendString [] k @ appendString [] v @ appendEntries [] kvs"
proof -
  have "appendEntries [] ((k, v) # kvs) = appendEntries (appendString (appendString [] k) v) kvs"
    by simp
  also have "\<dots> = appendString (appendString [] k) v @ appendEntries [] kvs"
    by (rule appendEntries_append)
  also have "appendString (appendString [] k) v = appendString [] k @ appendString [] v"
    by (rule appendString_append)
  finally show ?thesis by simp
qed

lemma map_of_rev_distinct: "distinct (map fst kvs) \<Longrightarrow> map_of (rev kvs) = map_of kvs"
  by (rule map_of_inject_set [THEN iffD2]) (simp_all add: rev_map [symmetric])


lemma appendRecords_Cons:
  "appendRecords [] ((mo, r) # rs) =
     AppendUint32 [] (of_nat (length mo)) @ appendEntries [] mo
     @ AppendUint32 [] (of_nat (length (Payload r))) @ Payload r @ appendRecords [] rs"
proof -
  have "appendRecords [] ((mo, r) # rs)
        = appendRecords (AppendUint32 (appendEntries (AppendUint32 [] (of_nat (length mo))) mo)
            (of_nat (length (Payload r))) @ Payload r) rs"
    by (simp add: Let_def)
  also have "\<dots> = (AppendUint32 (appendEntries (AppendUint32 [] (of_nat (length mo))) mo)
            (of_nat (length (Payload r))) @ Payload r) @ appendRecords [] rs"
    by (rule appendRecords_append)
  also have "AppendUint32 (appendEntries (AppendUint32 [] (of_nat (length mo))) mo)
            (of_nat (length (Payload r)))
      = AppendUint32 [] (of_nat (length mo)) @ appendEntries [] mo
        @ AppendUint32 [] (of_nat (length (Payload r)))"
    by (metis AppendUint32_append appendEntries_append append.assoc)
  finally show ?thesis by simp
qed

lemma iterates_sized:
  assumes "iterates m kvs" "fits_map m"
  shows "sized_entries kvs"
proof -
  from assms(1) have dist: "distinct (map fst kvs)" and m: "map_of kvs = m"
    by (simp_all add: iterates_def)
  have "card (dom m) = length kvs"
    using dist m by (metis distinct_card dom_map_of_conv_image_fst length_map set_map)
  moreover have "length k < 65536 \<and> length v < 65536" if "(k, v) \<in> set kvs" for k v
  proof -
    from that dist have "map_of kvs k = Some v" by simp
    with assms(2) m show ?thesis by (simp add: fits_map_def short_map_def)
  qed
  ultimately show ?thesis
    using assms(2) by (auto simp: sized_entries_def fits_map_def)
qed

lemma records_restored:
  assumes "list_all2 (\<lambda>morder r. iterates (Metadata r) morder) mos (rs :: Record list)"
  shows "map (\<lambda>(mo, r). \<lparr>Metadata = map_of (rev mo), Payload = Payload r\<rparr>) (zip mos rs) = rs"
  using assms
proof (induction rule: list_all2_induct)
  case Nil
  show ?case by simp
next
  case (Cons mo mos r rs)
  from Cons.hyps(1) have "map_of (rev mo) = Metadata r"
    by (simp add: iterates_def map_of_rev_distinct)
  with Cons.IH show ?case by simp
qed


lemma take4: "4 \<le> length b \<Longrightarrow> take 4 b = [b ! 0, b ! 1, b ! 2, b ! 3]"
  by (auto simp add: eval_nat_numeral Suc_le_length_iff)

lemma AppendUint32_Uint32:
  assumes "4 \<le> length b" "Uint32 b = Inr v"
  shows "AppendUint32 [] v = take 4 b"
proof -
  define b0 b1 b2 b3 where "b0 = b ! 0" and "b1 = b ! 1" and "b2 = b ! 2" and "b3 = b ! 3"
  have v: "v = ucast b3 OR push_bit 8 (ucast b2) OR push_bit 16 (ucast b1) OR push_bit 24 (ucast b0)"
    using assms by (simp add: Uint32_def b0_def b1_def b2_def b3_def)
  have "ucast (drop_bit 24 v) = b0"
    unfolding v by (rule bit_word_eqI) (auto simp add: bit_simps dest: bit_imp_le_length)
  moreover have "ucast (drop_bit 16 v) = b1"
    unfolding v by (rule bit_word_eqI) (auto simp add: bit_simps dest: bit_imp_le_length)
  moreover have "ucast (drop_bit 8 v) = b2"
    unfolding v by (rule bit_word_eqI) (auto simp add: bit_simps dest: bit_imp_le_length)
  moreover have "ucast v = b3"
    unfolding v by (rule bit_word_eqI) (auto simp add: bit_simps dest: bit_imp_le_length)
  ultimately show ?thesis
    using assms(1) by (simp add: AppendUint32_def take4 b0_def b1_def b2_def b3_def)
qed

lemma magic_bytes: "AppendUint32 [] magicNumber = [0x50, 0x4C, 0x4E, 0x58]"
  by (simp add: AppendUint32_def magicNumber_def)

lemma version_bytes: "AppendUint32 [] version = [0, 0, 0, 1]"
  by (simp add: AppendUint32_def version_def)

lemma length_header: "length (header rc cc) = 16"
  by (simp add: header_def)

lemma PackBatch_layout:
  "PackBatch corder morders b =
     Inr (header (of_nat (length (Records b))) (of_nat (length corder))
          @ appendEntries [] corder @ appendRecords [] (zip morders (Records b)))"
proof -
  have "AppendUint32 (AppendUint32 (AppendUint32 (AppendUint32 [] magicNumber) version)
          (of_nat (length (Records b)))) (of_nat (length corder))
        = header (of_nat (length (Records b))) (of_nat (length corder))"
    unfolding header_def by (metis AppendUint32_append append.assoc)
  then show ?thesis
    unfolding PackBatch_def Let_def
    by (metis appendEntries_append appendRecords_append append.assoc)
qed

lemma visits_sized:
  assumes v: "visits b corder morders" and f: "fits_frame b"
  shows "sized_entries corder"
    and "\<forall>(mo, r) \<in> set (zip morders (Records b)). sized_entries mo \<and> length (Payload r) < 2 ^ 32"
    and "length (zip morders (Records b)) = length (Records b)"
proof -
  from v have itc: "iterates (Context b) corder"
    and itm: "list_all2 (\<lambda>morder r. iterates (Metadata r) morder) morders (Records b)"
    by (simp_all add: visits_def)
  show "sized_entries corder"
    using itc f by (auto intro: iterates_sized simp: fits_frame_def)
  show "\<forall>(mo, r) \<in> set (zip morders (Records b)). sized_entries mo \<and> length (Payload r) < 2 ^ 32"
  proof (clarify, rule conjI)
    fix mo r assume mem: "(mo, r) \<in> set (zip morders (Records b))"
    then have r: "r \<in> set (Records b)"
      by (rule set_zip_rightD)
    from mem itm have "iterates (Metadata r) mo"
      by (auto simp: list_all2_iff)
    with r f show "sized_entries mo"
      by (auto intro: iterates_sized simp: fits_frame_def)
    from r f show "length (Payload r) < 2 ^ 32"
      by (simp add: fits_frame_def)
  qed
  from itm have "length morders = length (Records b)" by (rule list_all2_lengthD)
  then show "length (zip morders (Records b)) = length (Records b)" by simp
qed




lemma long_batch_visits: "visits long_batch [(long_key, [])] []"
  by (simp add: visits_def iterates_def long_batch_def)

lemma long_key_split: "long_key = [0, 0] @ replicate 65534 0"
proof -
  have "replicate (2 + 65534) (0 :: byte) = replicate 2 0 @ replicate 65534 0"
    by (rule replicate_add)
  moreover have "replicate 2 (0 :: byte) = [0, 0]"
    by (simp add: eval_nat_numeral)
  ultimately show ?thesis
    by (simp add: long_key_def)
qed

lemma appendString_empty: "appendString [] [] = [0, 0]"
  by (simp add: appendString_def AppendUint16_def)

lemma appendString_long_key: "appendString [] long_key = [0, 0] @ long_key"
proof -
  have "(of_nat (length long_key) :: 16 word) = 0"
    by (simp add: long_key_def)
  then show ?thesis
    by (simp add: appendString_def AppendUint16_def)
qed

lemma small_batch_fits: "fits_frame small_batch"
  by (auto simp: fits_frame_def fits_map_def short_map_def small_batch_def split: if_splits)

lemma small_batch_visits1:
  "visits small_batch [([9, 9], []), ([7], [8])] [[([1], [2, 3])], []]"
  by (simp add: visits_def iterates_def small_batch_def)

lemma small_batch_visits2:
  "visits small_batch [([7], [8]), ([9, 9], [])] [[([1], [2, 3])], []]"
  by (auto simp: visits_def iterates_def small_batch_def)
subsection \<open>Integers of the target\<close>

lemma bits_cases: "bits_of (int_size m) = 32 \<or> bits_of (int_size m) = 64"
  by (cases "int_size m") simp_all

lemma maxInt_cases: "maxInt m = 2147483647 \<or> maxInt m = 9223372036854775807"
  using bits_cases [of m] by (auto simp: maxInt_def)

lemma maxInt_ge: "2147483647 \<le> maxInt m"
  using maxInt_cases [of m] by auto

lemma wrap_id:
  assumes "- maxInt m - 1 \<le> x" "x \<le> maxInt m"
  shows "wrap m x = x"
proof (cases "int_size m")
  case Bits32
  with assms have "0 \<le> x + 2147483648" "x + 2147483648 < 4294967296"
    by (simp_all add: maxInt_def)
  then have "(x + 2147483648) mod 4294967296 = x + 2147483648"
    by (rule mod_pos_pos_trivial)
  with Bits32 show ?thesis
    by (simp add: wrap_def)
next
  case Bits64
  with assms have "0 \<le> x + 9223372036854775808" "x + 9223372036854775808 < 18446744073709551616"
    by (simp_all add: maxInt_def)
  then have "(x + 9223372036854775808) mod 18446744073709551616 = x + 9223372036854775808"
    by (rule mod_pos_pos_trivial)
  with Bits64 show ?thesis
    by (simp add: wrap_def)
qed


lemma wrap_small: "- 2147483648 \<le> x \<Longrightarrow> x \<le> 2147483647 \<Longrightarrow> wrap m x = x"
  using maxInt_ge [of m] by (intro wrap_id) simp_all

lemma int_add_id: "0 \<le> a \<Longrightarrow> 0 \<le> b \<Longrightarrow> a + b \<le> maxInt m \<Longrightarrow> int_add m a b = a + b"
  using maxInt_ge [of m] unfolding int_add_def by (intro wrap_id) simp_all

lemma int_add_small [simp]:
  "int_add m 0 4 = 4" "int_add m 4 4 = 8" "int_add m 8 4 = 12" "int_add m 12 4 = 16"
  by (simp_all add: int_add_def wrap_small)

lemma int_of_uint_id: "uint w \<le> maxInt m \<Longrightarrow> int_of_uint m w = uint w"
  using maxInt_ge [of m] uint_ge_0 [of w] unfolding int_of_uint_def by (intro wrap_id; linarith)

lemma int_of_uint16 [simp]: "int_of_uint m (w :: 16 word) = uint w"
proof -
  have "uint w < 65536"
    using unsigned_less [of w, where ?'a = int] by simp
  with maxInt_ge [of m] show ?thesis
    by (intro int_of_uint_id) simp
qed

lemma len_append [simp]: "len (a @ b) = len a + len b"
  by (simp add: len_def)

lemma len_nonneg [simp]: "0 \<le> len a"
  by (simp add: len_def)

lemma len_Nil [simp]: "len [] = 0"
  by (simp add: len_def)

lemma len_AppendUint32 [simp]: "len (AppendUint32 [] v) = 4"
  by (simp add: len_def)

lemma len_header [simp]: "len (header rc cc) = 16"
  by (simp add: len_def length_header)

lemma len_appendString: "len (appendString [] s) = 2 + len s"
  by (simp add: len_def)


subsection \<open>Decoding what the encoder wrote\<close>

lemma Uint32_at_enc:
  "Uint32_at (pre @ AppendUint32 [] v @ post) (len pre) = Inr v"
  by (simp add: Uint32_at_def slice_from_def len_def Uint32_AppendUint32)

lemma readString_enc:
  assumes "length s < 65536" and "len (pre @ appendString [] s @ post) \<le> maxInt m"
  shows "readString m (pre @ appendString [] s @ post) (len pre)
         = Inr (s, len (pre @ appendString [] s))"
proof -
  define data where "data = pre @ appendString [] s @ post"
  have ld: "len data = len pre + 2 + len s + len post"
    by (simp add: data_def len_appendString)
  from assms(2) have mx: "len data \<le> maxInt m"
    by (simp add: data_def)
  have a1: "int_add m (len pre) 2 = len pre + 2"
    using mx ld by (intro int_add_id) (simp_all add: len_def)
  have u: "uint (of_nat (length s) :: 16 word) = len s"
    using assms(1) by (simp add: len_def uint_nat unat_of_nat)
  have a2: "int_add m (len pre + 2) (len s) = len pre + 2 + len s"
    using mx ld by (intro int_add_id) (simp_all add: len_def)
  have s1: "slice_from data (len pre) = Inr (appendString [] s @ post)"
    by (simp add: slice_from_def data_def len_def)
  have s2: "slice_of data (len pre + 2) (len pre + 2 + len s) = Inr s"
  proof -
    have "nat (len pre + 2) = length pre + 2" "nat (len s) = length s"
      by (simp_all add: len_def)
    moreover have "drop (length pre + 2) data = s @ post"
      by (simp add: data_def appendString_def AppendUint16_def)
    moreover have "nat (len pre + 2 + len s - (len pre + 2)) = length s"
      by (simp add: len_def)
    moreover have "0 \<le> len pre + 2" "len pre + 2 \<le> len pre + 2 + len s"
      "len pre + 2 + len s \<le> len data"
      using ld by (simp_all add: len_def)
    ultimately show ?thesis
      by (simp add: slice_of_def)
  qed
  have b: "\<not> len data < len pre + 2" "\<not> len data < len pre + 2 + len s"
    by (simp_all add: ld) (simp_all add: len_def)
  have "readString m data (len pre) = Inr (s, len pre + 2 + len s)"
    unfolding readString_def
    by (simp add: a1 b s1 Uint16_appendString u a2 s2 Let_def)
  then show ?thesis
    by (simp add: data_def len_appendString)
qed

lemma readEntries_enc:
  assumes "\<forall>(k, v) \<in> set kvs. length k < 65536 \<and> length v < 65536"
    and "len (pre @ appendEntries [] kvs @ post) \<le> maxInt m"
  shows "readEntries m (pre @ appendEntries [] kvs @ post) (length kvs) (len pre) mp
         = Inr (mp ++ map_of (rev kvs), len (pre @ appendEntries [] kvs))"
  using assms
proof (induction kvs arbitrary: pre mp)
  case Nil
  show ?case by simp
next
  case (Cons kv kvs)
  obtain k v where kv: "kv = (k, v)" by (cases kv)
  from Cons.prems have lk: "length k < 65536" and lv: "length v < 65536"
    and rest: "\<forall>(k, v) \<in> set kvs. length k < 65536 \<and> length v < 65536"
    by (auto simp: kv)
  define data where "data = pre @ appendEntries [] (kv # kvs) @ post"
  define p1 where "p1 = pre @ appendString [] k"
  define p2 where "p2 = p1 @ appendString [] v"
  have d1: "data = pre @ appendString [] k @ (appendString [] v @ appendEntries [] kvs @ post)"
    by (simp add: data_def kv appendEntries_Cons del: appendEntries.simps)
  have d2: "data = p1 @ appendString [] v @ (appendEntries [] kvs @ post)"
    by (simp add: d1 p1_def)
  have d3: "data = p2 @ appendEntries [] kvs @ post"
    by (simp add: d2 p2_def)
  from Cons.prems(2) have mx: "len data \<le> maxInt m"
    by (simp add: data_def)
  have r1: "readString m data (len pre) = Inr (k, len p1)"
    unfolding p1_def using readString_enc [OF lk, where pre = pre and m = m] mx by (simp only: d1)
  have r2: "readString m data (len p1) = Inr (v, len p2)"
    unfolding p2_def using readString_enc [OF lv, where pre = p1 and m = m] mx by (simp only: d2)
  have r3: "readEntries m data (length kvs) (len p2) (mp(k \<mapsto> v))
            = Inr (mp(k \<mapsto> v) ++ map_of (rev kvs), len (p2 @ appendEntries [] kvs))"
    using Cons.IH [OF rest, where pre = p2 and mp = "mp(k \<mapsto> v)"] mx by (simp only: d3)
  have mm: "mp(k \<mapsto> v) ++ map_of (rev kvs) = mp ++ map_of (rev (kv # kvs))"
    by (simp add: kv map_add_upd_left [symmetric] del: map_add_upd_left)
  have e: "p2 @ appendEntries [] kvs = pre @ appendEntries [] (kv # kvs)"
    by (simp add: p2_def p1_def kv appendEntries_Cons del: appendEntries.simps)
  have "readEntries m data (length (kv # kvs)) (len pre) mp
        = readEntries m data (length kvs) (len p2) (mp(k \<mapsto> v))"
    by (simp add: r1 r2)
  also note r3
  finally show ?case
    unfolding data_def by (simp only: mm e)
qed

lemma readRecords_enc:
  assumes "\<forall>(mo, r) \<in> set ors. sized_entries mo \<and> length (Payload r) < 2 ^ 32
             \<and> grants m (Make_map (length mo))"
    and "len (pre @ appendRecords [] ors @ post) \<le> maxInt m"
  shows "readRecords m (pre @ appendRecords [] ors @ post) (length ors) (len pre) acc
         = Inr (acc @ map (\<lambda>(mo, r). \<lparr>Metadata = map_of (rev mo), Payload = Payload r\<rparr>) ors,
                len (pre @ appendRecords [] ors))"
  using assms
proof (induction ors arbitrary: pre acc)
  case Nil
  show ?case by simp
next
  case (Cons x ors)
  obtain mo r where x: "x = (mo, r)" by (cases x)
  from Cons.prems(1) have lm: "length mo < 2 ^ 32"
    and fm: "\<forall>(k, v) \<in> set mo. length k < 65536 \<and> length v < 65536"
    and lp: "length (Payload r) < 2 ^ 32"
    and gm: "grants m (Make_map (length mo))"
    and rest: "\<forall>(mo, r) \<in> set ors. sized_entries mo \<and> length (Payload r) < 2 ^ 32
                 \<and> grants m (Make_map (length mo))"
    by (auto simp: x sized_entries_def)
  define c1 where "c1 = AppendUint32 [] (of_nat (length mo))"
  define e where "e = appendEntries [] mo"
  define c2 where "c2 = AppendUint32 [] (of_nat (length (Payload r)))"
  define p where "p = Payload r"
  define tl where "tl = appendRecords [] ors @ post"
  define data where "data = pre @ appendRecords [] (x # ors) @ post"
  define p1 where "p1 = pre @ c1"
  define p2 where "p2 = p1 @ e"
  define p3 where "p3 = p2 @ c2"
  define p4 where "p4 = p3 @ p"
  define acc' where "acc' = acc @ [\<lparr>Metadata = map_of (rev mo), Payload = p\<rparr>]"
  have d: "data = pre @ c1 @ e @ c2 @ p @ tl"
    by (simp add: data_def x appendRecords_Cons c1_def e_def c2_def p_def tl_def
        del: appendRecords.simps)
  have lc1: "len c1 = 4" and lc2: "len c2 = 4"
    by (simp_all add: c1_def c2_def)
  have l1: "len p1 = len pre + 4" and l3: "len p3 = len p2 + 4" and l4: "len p4 = len p3 + len p"
    by (simp_all add: p1_def p3_def p4_def lc1 lc2)
  have ld: "len data = len p4 + len tl"
    by (simp add: d p4_def p3_def p2_def p1_def)
  from Cons.prems(2) have mx: "len data \<le> maxInt m"
    by (simp add: data_def)
  have b1: "\<not> len data < len pre + 4" and b2: "\<not> len data < len p2 + 4"
    and b3: "\<not> len data < len p3 + len p"
    unfolding ld l4 l3 by (simp_all add: p2_def l1) (simp_all add: len_def)
  have c1: "\<not> len data < len p1" and c2: "\<not> len data < len p3" and c3: "\<not> len data < len p4"
    using b1 b2 b3 by (simp_all add: l1 l3 l4)
  have a1: "int_add m (len pre) 4 = len p1"
    unfolding l1 using mx b1 by (intro int_add_id) (simp_all add: len_def)
  have a2: "int_add m (len p2) 4 = len p3"
    unfolding l3 using mx b2 by (intro int_add_id) (simp_all add: len_def)
  have um: "unat (of_nat (length mo) :: 32 word) = length mo"
    using lm by (simp add: unat_of_nat)
  have up: "uint (of_nat (length (Payload r)) :: 32 word) = len p"
    using lp by (simp add: p_def len_def uint_nat unat_of_nat)
  have cp: "int_of_uint m (of_nat (length (Payload r)) :: 32 word) = len p"
    unfolding up [symmetric] using mx b3 up by (intro int_of_uint_id) (simp add: len_def)
  have a3: "int_add m (len p3) (len p) = len p4"
    unfolding l4 using mx b3 by (intro int_add_id) (simp_all add: len_def)
  have s1: "Uint32_at data (len pre) = Inr (of_nat (length mo))"
    unfolding d c1_def by (rule Uint32_at_enc)
  have s2: "readEntries m data (length mo) (len p1) Map.empty = Inr (map_of (rev mo), len p2)"
  proof -
    have dd: "data = p1 @ appendEntries [] mo @ (c2 @ p @ tl)"
      by (simp add: d p1_def e_def)
    have "readEntries m (p1 @ appendEntries [] mo @ (c2 @ p @ tl)) (length mo) (len p1) Map.empty
          = Inr (Map.empty ++ map_of (rev mo), len (p1 @ appendEntries [] mo))"
      using mx unfolding dd by (intro readEntries_enc [OF fm])
    then show ?thesis
      unfolding dd [symmetric] by (simp add: p2_def e_def)
  qed
  have s3: "Uint32_at data (len p2) = Inr (of_nat (length (Payload r)))"
  proof -
    have "Uint32_at (p2 @ AppendUint32 [] (of_nat (length (Payload r))) @ (p @ tl)) (len p2)
          = Inr (of_nat (length (Payload r)))"
      by (rule Uint32_at_enc)
    then show ?thesis
      by (simp add: d p2_def p1_def c2_def)
  qed
  have s4: "slice_of data (len p3) (len p4) = Inr p"
  proof -
    have "drop (nat (len p3)) data = p @ tl"
      by (simp add: d p3_def p2_def p1_def len_def)
    moreover have "nat (len p4 - len p3) = length p"
      unfolding l4 by (simp add: len_def)
    ultimately show ?thesis
      using b3 by (simp add: slice_of_def l4)
  qed
  have s5: "readRecords m data (length ors) (len p4) acc'
            = Inr (acc' @ map (\<lambda>(mo, r). \<lparr>Metadata = map_of (rev mo), Payload = Payload r\<rparr>) ors,
                   len (p4 @ appendRecords [] ors))"
  proof -
    have dd: "data = p4 @ appendRecords [] ors @ post"
      by (simp add: d p4_def p3_def p2_def p1_def tl_def)
    show ?thesis
      using mx unfolding dd by (intro Cons.IH [OF rest])
  qed
  have "readRecords m data (length (x # ors)) (len pre) acc
        = readRecords m data (length ors) (len p4) acc'"
    by (simp add: a1 s1 um gm s2 a2 s3 cp a3 s4 c1 c2 c3 Let_def acc'_def)
  also note s5
  finally have R: "readRecords m data (length (x # ors)) (len pre) acc
      = Inr (acc' @ map (\<lambda>(mo, r). \<lparr>Metadata = map_of (rev mo), Payload = Payload r\<rparr>) ors,
             len (p4 @ appendRecords [] ors))" .
  have eq1: "acc' @ map (\<lambda>(mo, r). \<lparr>Metadata = map_of (rev mo), Payload = Payload r\<rparr>) ors
             = acc @ map (\<lambda>(mo, r). \<lparr>Metadata = map_of (rev mo), Payload = Payload r\<rparr>) (x # ors)"
    by (simp add: acc'_def x p_def)
  have eq2: "p4 @ appendRecords [] ors = pre @ appendRecords [] (x # ors)"
    by (simp add: p4_def p3_def p2_def p1_def x appendRecords_Cons c1_def e_def c2_def p_def
        del: appendRecords.simps)
  from R show ?case
    unfolding data_def by (simp only: eq1 eq2)
qed

lemma UnpackBatch_header:
  "UnpackBatch m (header rc cc @ rest) =
     (if \<not> grants m (Make_map (unat cc)) then Inl OutOfMemory
      else case readEntries m (header rc cc @ rest) (unat cc) 16 Map.empty of
        Inl e \<Rightarrow> Inl e
      | Inr (context, offset5) \<Rightarrow>
         (if \<not> grants m (Make_Records (unat rc)) then Inl OutOfMemory
          else case readRecords m (header rc cc @ rest) (unat rc) offset5 [] of
            Inl e \<Rightarrow> Inl e
          | Inr (records, offset6) \<Rightarrow> Inr \<lparr>Records = records, Context = context\<rparr>))"
proof -
  define h1 where "h1 = AppendUint32 [] magicNumber"
  define h2 where "h2 = AppendUint32 [] version"
  define data where "data = header rc cc @ rest"
  have lh: "len h1 = 4" "len h2 = 4"
    by (simp_all add: h1_def h2_def)
  have d: "data = h1 @ h2 @ AppendUint32 [] rc @ AppendUint32 [] cc @ rest"
    by (simp add: data_def header_def h1_def h2_def)
  have len16: "\<not> len data < 16"
    by (simp add: data_def) (simp add: len_def)
  have g1: "Uint32_at data 0 = Inr magicNumber"
    using Uint32_at_enc [of "[]" magicNumber "h2 @ AppendUint32 [] rc @ AppendUint32 [] cc @ rest"]
    by (simp add: d h1_def)
  have g2: "Uint32_at data 4 = Inr version"
    using Uint32_at_enc [of h1 version "AppendUint32 [] rc @ AppendUint32 [] cc @ rest"]
    by (simp add: d h2_def lh)
  have g3: "Uint32_at data 8 = Inr rc"
    using Uint32_at_enc [of "h1 @ h2" rc "AppendUint32 [] cc @ rest"]
    by (simp add: d lh)
  have g4: "Uint32_at data 12 = Inr cc"
    using Uint32_at_enc [of "h1 @ h2 @ AppendUint32 [] rc" cc rest]
    by (simp add: d lh)
  show ?thesis
    unfolding data_def [symmetric] UnpackBatch_def
    by (simp add: len16 g1 g2 g3 g4 Let_def)
qed

lemma UnpackBatch_layout:
  assumes sk: "sized_entries kvs"
    and so: "\<forall>(mo, r) \<in> set ors. sized_entries mo \<and> length (Payload r) < 2 ^ 32
               \<and> grants m (Make_map (length mo))"
    and lo: "length ors < 2 ^ 32"
    and gc: "grants m (Make_map (length kvs))"
    and gr: "grants m (Make_Records (length ors))"
    and mx: "len (header (of_nat (length ors)) (of_nat (length kvs))
                   @ appendEntries [] kvs @ appendRecords [] ors @ rest) \<le> maxInt m"
  shows "UnpackBatch m (header (of_nat (length ors)) (of_nat (length kvs))
                        @ appendEntries [] kvs @ appendRecords [] ors @ rest)
         = Inr (decoded kvs ors)"
proof -
  define rc :: "32 word" where "rc = of_nat (length ors)"
  define cc :: "32 word" where "cc = of_nat (length kvs)"
  define ce where "ce = appendEntries [] kvs"
  define re where "re = appendRecords [] ors"
  define data where "data = header rc cc @ ce @ re @ rest"
  from mx have mx': "len data \<le> maxInt m"
    by (simp add: data_def rc_def cc_def ce_def re_def)
  have uc: "unat cc = length kvs"
    using sk by (simp add: cc_def sized_entries_def unat_of_nat)
  have ur: "unat rc = length ors"
    using lo by (simp add: rc_def unat_of_nat)
  have "readEntries m (header rc cc @ appendEntries [] kvs @ (re @ rest)) (length kvs)
          (len (header rc cc)) Map.empty
        = Inr (Map.empty ++ map_of (rev kvs), len (header rc cc @ appendEntries [] kvs))"
    using sk mx' by (intro readEntries_enc) (simp_all add: sized_entries_def data_def ce_def)
  then have e: "readEntries m data (length kvs) 16 Map.empty
                = Inr (map_of (rev kvs), len (header rc cc @ ce))"
    by (simp add: data_def ce_def)
  have "readRecords m ((header rc cc @ ce) @ appendRecords [] ors @ rest) (length ors)
          (len (header rc cc @ ce)) []
        = Inr ([] @ map (\<lambda>(mo, r). \<lparr>Metadata = map_of (rev mo), Payload = Payload r\<rparr>) ors,
               len ((header rc cc @ ce) @ appendRecords [] ors))"
    using mx' by (intro readRecords_enc [OF so]) (simp add: data_def re_def)
  then have r: "readRecords m data (length ors) (len (header rc cc @ ce)) []
        = Inr (map (\<lambda>(mo, r). \<lparr>Metadata = map_of (rev mo), Payload = Payload r\<rparr>) ors,
               len ((header rc cc @ ce) @ re))"
    by (simp add: data_def re_def)
  have "UnpackBatch m data = Inr (decoded kvs ors)"
    unfolding data_def UnpackBatch_header
    using e r gc gr by (simp add: data_def uc ur decoded_def)
  then show ?thesis
    by (simp add: data_def rc_def cc_def ce_def re_def)
qed


subsection \<open>What a decoded batch looks like\<close>






subsection \<open>Where the decoder does return\<close>

text \<open>
  With a 64-bit \<^verbatim>\<open>int\<close>, a buffer shorter than 2^62 bytes and a runtime that grants every
  request, no sum wraps, no conversion is negative and every slice expression is within
  its bounds: the decoder returns a batch or an error.
\<close>

lemma wrap64:
  assumes "int_size m = Bits64" "- 9223372036854775808 \<le> x" "x \<le> 9223372036854775807"
  shows "wrap m x = x"
  using assms by (intro wrap_id) (simp_all add: maxInt_def)

lemma int_of_uint64:
  assumes "int_size m = Bits64"
  shows "int_of_uint m (w :: 32 word) = uint w"
proof -
  have "uint w < 4294967296"
    using unsigned_less [of w, where ?'a = int] by simp
  with assms show ?thesis
    by (intro int_of_uint_id) (simp add: maxInt_def)
qed

lemma readString_returns:
  assumes m: "int_size m = Bits64" and l: "len data < 2 ^ 62"
    and o: "0 \<le> offset" "offset \<le> len data"
  shows "(\<exists>msg. readString m data offset = Inl (Err msg)) \<or>
         (\<exists>s offset'. readString m data offset = Inr (s, offset')
            \<and> 0 \<le> offset' \<and> offset' \<le> len data)"
proof -
  have a1: "int_add m offset 2 = offset + 2"
    unfolding int_add_def using m l o by (intro wrap64) simp_all
  have a2: "int_add m (offset + 2) (uint w) = offset + 2 + uint w" for w :: "16 word"
  proof -
    have "uint w < 65536"
      using unsigned_less [of w, where ?'a = int] by simp
    moreover from l have "len data < 4611686018427387904"
      by simp
    ultimately show ?thesis
      unfolding int_add_def using o uint_ge_0 [of w] by (intro wrap64 [OF m]; linarith)
  qed
  show ?thesis
  proof (cases "offset + 2 > len data")
    case True
    then show ?thesis by (simp add: readString_def a1)
  next
    case False
    with o have "2 \<le> length (drop (nat offset) data)"
      by (simp add: len_def)
    then obtain w where w: "Uint16 (drop (nat offset) data) = Inr w"
      by (auto simp: Uint16_def)
    show ?thesis
    proof (cases "offset + 2 + uint w > len data")
      case True
      with False o w show ?thesis
        by (simp add: readString_def a1 a2 slice_from_def Let_def)
    next
      case b: False
      with False o w uint_ge_0 [of w] show ?thesis
        by (simp add: readString_def a1 a2 slice_from_def slice_of_def Let_def)
    qed
  qed
qed

lemma readEntries_returns:
  assumes m: "int_size m = Bits64" and l: "len data < 2 ^ 62"
    and o: "0 \<le> offset" "offset \<le> len data"
  shows "(\<exists>msg. readEntries m data n offset mp = Inl (Err msg)) \<or>
         (\<exists>mp' offset'. readEntries m data n offset mp = Inr (mp', offset')
            \<and> 0 \<le> offset' \<and> offset' \<le> len data)"
  using o
proof (induction n arbitrary: offset mp)
  case 0
  then show ?case by simp
next
  case (Suc n)
  from readString_returns [OF m l Suc.prems] show ?case
  proof (elim disjE exE conjE)
    fix msg assume "readString m data offset = Inl (Err msg)"
    then show ?thesis by simp
  next
    fix k o1 assume k: "readString m data offset = Inr (k, o1)" and o1: "0 \<le> o1" "o1 \<le> len data"
    from readString_returns [OF m l o1] show ?thesis
    proof (elim disjE exE conjE)
      fix msg assume "readString m data o1 = Inl (Err msg)"
      with k show ?thesis by simp
    next
      fix v o2 assume v: "readString m data o1 = Inr (v, o2)" and o2: "0 \<le> o2" "o2 \<le> len data"
      define mp1 where "mp1 = mp(k \<mapsto> v)"
      have "readEntries m data (Suc n) offset mp = readEntries m data n o2 mp1"
        by (simp add: k v mp1_def)
      with Suc.IH [OF o2, of mp1] show ?thesis
        by simp
    qed
  qed
qed

lemma Uint32_at_returns:
  assumes "0 \<le> offset" "offset + 4 \<le> len data"
  shows "\<exists>v. Uint32_at data offset = Inr v"
  using assms by (simp add: Uint32_at_def slice_from_def Uint32_def len_def)

lemma readRecords_returns:
  assumes m: "int_size m = Bits64" and l: "len data < 2 ^ 62" and g: "\<forall>r. grants m r"
    and o: "0 \<le> offset" "offset \<le> len data"
  shows "(\<exists>msg. readRecords m data n offset acc = Inl (Err msg)) \<or>
         (\<exists>rs offset'. readRecords m data n offset acc = Inr (rs, offset'))"
  using o
proof (induction n arbitrary: offset acc)
  case 0
  then show ?case by simp
next
  case (Suc n)
  have a1: "int_add m offset 4 = offset + 4"
    unfolding int_add_def using m l Suc.prems by (intro wrap64) simp_all
  show ?case
  proof (cases "offset + 4 > len data")
    case True
    then show ?thesis by (simp add: a1)
  next
    case b1: False
    with Suc.prems obtain mc where mc: "Uint32_at data offset = Inr mc"
      using Uint32_at_returns [of offset data] by auto
    from b1 Suc.prems have o1: "0 \<le> offset + 4" "offset + 4 \<le> len data"
      by simp_all
    from readEntries_returns [OF m l o1, of "unat mc" Map.empty] show ?thesis
    proof (elim disjE exE conjE)
      fix msg assume "readEntries m data (unat mc) (offset + 4) Map.empty = Inl (Err msg)"
      with b1 mc g show ?thesis by (simp add: a1 Let_def)
    next
      fix md o2 assume md: "readEntries m data (unat mc) (offset + 4) Map.empty = Inr (md, o2)"
        and o2: "0 \<le> o2" "o2 \<le> len data"
      have a2: "int_add m o2 4 = o2 + 4"
        unfolding int_add_def using m l o2 by (intro wrap64) simp_all
      show ?thesis
      proof (cases "o2 + 4 > len data")
        case True
        with b1 mc g md show ?thesis by (simp add: a1 a2 Let_def)
      next
        case b2: False
        with o2 obtain pl where pl: "Uint32_at data o2 = Inr pl"
          using Uint32_at_returns [of o2 data] by auto
        have up: "uint pl < 4294967296"
          using unsigned_less [of pl, where ?'a = int] by simp
        from l have l': "len data < 4611686018427387904"
          by simp
        have a3: "int_add m (o2 + 4) (uint pl) = o2 + 4 + uint pl"
          unfolding int_add_def using l' o2 up uint_ge_0 [of pl] by (intro wrap64 [OF m]; linarith)
        show ?thesis
        proof (cases "o2 + 4 + uint pl > len data")
          case True
          with b1 mc g md b2 pl show ?thesis
            by (simp add: a1 a2 a3 int_of_uint64 [OF m] Let_def)
        next
          case b3: False
          define payload where "payload = take (nat (uint pl)) (drop (nat (o2 + 4)) data)"
          define acc' where "acc' = acc @ [\<lparr>Metadata = md, Payload = payload\<rparr>]"
          have "0 \<le> o2 + 4" "o2 + 4 \<le> o2 + 4 + uint pl" "o2 + 4 + uint pl \<le> len data"
            using o2 b3 uint_ge_0 [of pl] by simp_all
          then have s4: "slice_of data (o2 + 4) (o2 + 4 + uint pl) = Inr payload"
            by (simp add: slice_of_def payload_def)
          have step: "readRecords m data (Suc n) offset acc
                      = readRecords m data n (o2 + 4 + uint pl) acc'"
            using mc g md pl
            by (simp add: b1 b2 b3 a1 a2 a3 s4 int_of_uint64 [OF m] Let_def acc'_def)
          have "0 \<le> o2 + 4 + uint pl" "o2 + 4 + uint pl \<le> len data"
            using o2 b3 uint_ge_0 [of pl] by simp_all
          from Suc.IH [OF this, of acc'] step show ?thesis
            by simp
        qed
      qed
    qed
  qed
qed

lemma UnpackBatch_returns:
  assumes m: "int_size m = Bits64" and l: "len data < 2 ^ 62" and g: "\<forall>r. grants m r"
  shows "returned (UnpackBatch m data)"
proof (cases "len data < 16")
  case True
  then show ?thesis by (simp add: UnpackBatch_def returned_def)
next
  case False
  then obtain magic ver rc cc where h: "Uint32_at data 0 = Inr magic" "Uint32_at data 4 = Inr ver"
      "Uint32_at data 8 = Inr rc" "Uint32_at data 12 = Inr cc"
    using Uint32_at_returns [of 0 data] Uint32_at_returns [of 4 data] Uint32_at_returns [of 8 data]
      Uint32_at_returns [of 12 data] by auto
  show ?thesis
  proof (cases "magic = magicNumber \<and> ver = version")
    case False
    with \<open>\<not> len data < 16\<close> h show ?thesis
      by (auto simp: UnpackBatch_def returned_def Let_def)
  next
    case mv: True
    from False have o: "(0 :: int) \<le> 16" "16 \<le> len data" by simp_all
    from readEntries_returns [OF m l o, of "unat cc" Map.empty] show ?thesis
    proof (elim disjE exE conjE)
      fix msg assume "readEntries m data (unat cc) 16 Map.empty = Inl (Err msg)"
      with False h mv g show ?thesis
        by (simp add: UnpackBatch_def returned_def Let_def)
    next
      fix ctx o5 assume c: "readEntries m data (unat cc) 16 Map.empty = Inr (ctx, o5)"
        and o5: "0 \<le> o5" "o5 \<le> len data"
      from readRecords_returns [OF m l g o5, of "unat rc" "[]"] show ?thesis
      proof (elim disjE exE)
        fix msg assume "readRecords m data (unat rc) o5 [] = Inl (Err msg)"
        with False h mv g c show ?thesis
          by (simp add: UnpackBatch_def returned_def Let_def)
      next
        fix rs o6 assume "readRecords m data (unat rc) o5 [] = Inr (rs, o6)"
        with False h mv g c show ?thesis
          by (simp add: UnpackBatch_def returned_def Let_def)
      qed
    qed
  qed
qed


subsection \<open>Inputs that are rejected, and inputs the decoder does not survive\<close>

lemma UnpackBatch_too_short:
  "length data < 16 \<Longrightarrow> UnpackBatch m data = Inl (Err ''batch: data too short'')"
  by (simp add: UnpackBatch_def len_def)

lemma UnpackBatch_bad_magic:
  assumes "16 \<le> length data" "take 4 data \<noteq> [0x50, 0x4C, 0x4E, 0x58]"
  shows "UnpackBatch m data = Inl (Err ''batch: invalid magic number'')"
proof -
  from assms(1) obtain magic where m: "Uint32 data = Inr magic"
    by (simp add: Uint32_def)
  then have "AppendUint32 [] magic = take 4 data"
    using assms(1) by (intro AppendUint32_Uint32) simp_all
  with assms(2) have "magic \<noteq> magicNumber"
    using magic_bytes by auto
  with assms(1) m show ?thesis
    by (simp add: UnpackBatch_def Uint32_at_def slice_from_def len_def)
qed

lemma huge_count_frame_eq: "huge_count_frame = header 0xFFFFFFFF 0 @ []"
  by (simp add: huge_count_frame_def header_def AppendUint32_def magicNumber_def version_def)

lemma huge_payload_frame_eq:
  "huge_payload_frame = header 1 0 @ AppendUint32 [] 0 @ AppendUint32 [] 0x80000000 @ []"
  by (simp add: huge_payload_frame_def header_def AppendUint32_def magicNumber_def version_def)

lemma UnpackBatch_huge_count: "UnpackBatch amd64_16G huge_count_frame = Inl OutOfMemory"
  unfolding huge_count_frame_eq UnpackBatch_header
  by (simp add: amd64_16G_def)

lemma UnpackBatch_huge_payload: "UnpackBatch arm_1G huge_payload_frame = Inl Panic"
proof -
  define data where "data = huge_payload_frame"
  have d1: "data = header 1 0 @ AppendUint32 [] 0 @ (AppendUint32 [] 0x80000000 @ [])"
    by (simp add: data_def huge_payload_frame_eq)
  have d2: "data = (header 1 0 @ AppendUint32 [] 0) @ AppendUint32 [] 0x80000000 @ []"
    by (simp add: data_def huge_payload_frame_eq)
  have l: "len data = 24"
    by (simp add: d1)
  have u1: "Uint32_at data 16 = Inr 0"
    using Uint32_at_enc [of "header 1 0" 0 "AppendUint32 [] 0x80000000 @ []"]
    by (simp add: d1)
  have u2: "Uint32_at data 20 = Inr 0x80000000"
    using Uint32_at_enc [of "header 1 0 @ AppendUint32 [] 0" "0x80000000" "[]"]
    by (simp add: d2)
  have a: "int_add arm_1G 16 4 = 20" "int_add arm_1G 20 4 = 24"
    by (simp_all add: int_add_def wrap_small)
  have c: "int_of_uint arm_1G (0x80000000 :: 32 word) = - 2147483648"
    by (simp add: int_of_uint_def wrap_def arm_1G_def)
  have h: "int_add arm_1G 24 (- 2147483648) = - 2147483624"
    by (simp add: int_add_def wrap_small)
  have g: "grants arm_1G (Make_map 0)" "grants arm_1G (Make_Records (Suc 0))"
    by (simp_all add: arm_1G_def)
  have R: "readRecords arm_1G data (Suc 0) 16 [] = Inl Panic"
    by (simp add: l a u1 u2 g c h slice_of_def Let_def)
  define rest where "rest = AppendUint32 [] 0 @ AppendUint32 [] 0x80000000 @ ([] :: bytes)"
  have dr: "data = header 1 0 @ rest"
    by (simp add: d1 rest_def)
  have "UnpackBatch arm_1G (header 1 0 @ rest) = Inl Panic"
    unfolding UnpackBatch_header by (simp add: g dr [symmetric] R del: readRecords.simps)
  then show ?thesis
    by (simp add: dr [symmetric] data_def)
qed


lemma UnpackBatch_huge_payload_64:
  "UnpackBatch amd64_16G huge_payload_frame = Inl (Err ''batch: payload extends beyond data'')"
proof -
  define data where "data = huge_payload_frame"
  have d1: "data = header 1 0 @ AppendUint32 [] 0 @ (AppendUint32 [] 0x80000000 @ [])"
    by (simp add: data_def huge_payload_frame_eq)
  have d2: "data = (header 1 0 @ AppendUint32 [] 0) @ AppendUint32 [] 0x80000000 @ []"
    by (simp add: data_def huge_payload_frame_eq)
  have l: "len data = 24"
    by (simp add: d1)
  have u1: "Uint32_at data 16 = Inr 0"
    using Uint32_at_enc [of "header 1 0" 0 "AppendUint32 [] 0x80000000 @ []"]
    by (simp add: d1)
  have u2: "Uint32_at data 20 = Inr 0x80000000"
    using Uint32_at_enc [of "header 1 0 @ AppendUint32 [] 0" "0x80000000" "[]"]
    by (simp add: d2)
  have a: "int_add amd64_16G 16 4 = 20" "int_add amd64_16G 20 4 = 24"
    by (simp_all add: int_add_def wrap_small)
  have c: "int_of_uint amd64_16G (0x80000000 :: 32 word) = 2147483648"
    by (simp add: int_of_uint_def wrap_def amd64_16G_def)
  have h: "int_add amd64_16G 24 2147483648 = 2147483672"
    by (simp add: int_add_def wrap_def amd64_16G_def)
  have g: "grants amd64_16G (Make_map 0)" "grants amd64_16G (Make_Records (Suc 0))"
    by (simp_all add: amd64_16G_def)
  have R: "readRecords amd64_16G data (Suc 0) 16 []
           = Inl (Err ''batch: payload extends beyond data'')"
    by (simp add: l a u1 u2 g c h Let_def)
  define rest where "rest = AppendUint32 [] 0 @ AppendUint32 [] 0x80000000 @ ([] :: bytes)"
  have dr: "data = header 1 0 @ rest"
    by (simp add: d1 rest_def)
  have "UnpackBatch amd64_16G (header 1 0 @ rest) = Inl (Err ''batch: payload extends beyond data'')"
    unfolding UnpackBatch_header by (simp add: g dr [symmetric] R del: readRecords.simps)
  then show ?thesis
    by (simp add: dr [symmetric] data_def)
qed


subsection \<open>The bytes of a frame\<close>







subsection \<open>Counts of a batch\<close>

lemma iterates_card:
  assumes "iterates m kvs"
  shows "card (dom m) = length kvs"
proof -
  from assms have "distinct (map fst kvs)" "map_of kvs = m"
    by (simp_all add: iterates_def)
  then show ?thesis
    by (metis distinct_card dom_map_of_conv_image_fst length_map set_map)
qed

lemma small_batch_grants: "grants_batch amd64_16G small_batch" "grants_batch arm_1G small_batch"
  by (simp_all add: grants_batch_def small_batch_def amd64_16G_def arm_1G_def card_insert_if)


subsection \<open>The frame of a key of 65536 bytes\<close>

lemma PackBatch_long_batch:
  "PackBatch [(long_key, [])] [] long_batch = Inr (header 0 1 @ [0, 0] @ long_key @ [0, 0])"
proof -
  have "appendEntries [] [(long_key, [])] = [0, 0] @ long_key @ [0, 0]"
    using appendEntries_Cons [of long_key "[]" "[]"]
    by (simp add: appendString_long_key appendString_empty del: appendEntries.simps(2))
  then show ?thesis
    unfolding PackBatch_layout by (simp add: long_batch_def del: appendEntries.simps(2))
qed

lemma UnpackBatch_long_frame:
  assumes g: "grants m (Make_map 1)" "grants m (Make_Records 0)"
  shows "UnpackBatch m (header 0 1 @ [0, 0] @ long_key @ [0, 0])
         = Inr \<lparr>Records = [], Context = [[] \<mapsto> []]\<rparr>"
proof -
  define rest :: bytes where "rest = replicate 65534 0 @ [0, 0]"
  define kvs :: entries where "kvs = [([], [])]"
  have k: "appendEntries [] kvs = [0, 0, 0, 0]"
    using appendEntries_Cons [of "[]" "[]" "[]"]
    by (simp add: kvs_def appendString_empty del: appendEntries.simps(2))
  have sk: "sized_entries kvs"
    by (simp add: sized_entries_def kvs_def)
  from g have g': "grants m (Make_map (length kvs))"
      "grants m (Make_Records (length ([] :: (entries \<times> Record) list)))"
    by (simp_all add: kvs_def)
  have "len (header 0 1 @ [0, 0, 0, 0] @ rest) = 65556"
    by (simp add: rest_def) (simp add: len_def)
  with maxInt_ge [of m]
  have mx: "len (header (of_nat (length ([] :: (entries \<times> Record) list))) (of_nat (length kvs))
                 @ appendEntries [] kvs @ appendRecords [] [] @ rest) \<le> maxInt m"
    unfolding k by (simp add: kvs_def)
  from UnpackBatch_layout [OF sk _ _ g' mx]
  have "UnpackBatch m (header 0 1 @ [0, 0, 0, 0] @ rest) = Inr \<lparr>Records = [], Context = [[] \<mapsto> []]\<rparr>"
    unfolding k by (simp add: kvs_def decoded_def)
  then show ?thesis
    by (simp add: rest_def long_key_split)
qed

lemma grants_1_0:
  "grants amd64_16G (Make_map 1)" "grants amd64_16G (Make_Records 0)"
  "grants arm_1G (Make_map 1)" "grants arm_1G (Make_Records 0)"
  by (simp_all add: amd64_16G_def arm_1G_def)

section \<open>Claims about the wire format\<close>

text \<open>
  C1, as stated, is false: a batch whose only context key is 65536 zero bytes long is
  encoded without error, and the frame decodes, also without error, to a batch whose
  context maps the empty key to the empty value. The length field of the key holds
  65536 modulo 2^16, that is 0.
\<close>

theorem roundtrip_long_key_counterexample:
  "visits long_batch [(long_key, [])] []
   \<and> PackBatch [(long_key, [])] [] long_batch = Inr (header 0 1 @ [0, 0] @ long_key @ [0, 0])
   \<and> UnpackBatch amd64_16G (header 0 1 @ [0, 0] @ long_key @ [0, 0])
       = Inr \<lparr>Records = [], Context = [[] \<mapsto> []]\<rparr>
   \<and> UnpackBatch arm_1G (header 0 1 @ [0, 0] @ long_key @ [0, 0])
       = Inr \<lparr>Records = [], Context = [[] \<mapsto> []]\<rparr>
   \<and> Context long_batch long_key = Some []
   \<and> Context \<lparr>Records = [], Context = [[] \<mapsto> []]\<rparr> long_key = None"
proof (intro conjI)
  show "visits long_batch [(long_key, [])] []"
    by (rule long_batch_visits)
  show "PackBatch [(long_key, [])] [] long_batch = Inr (header 0 1 @ [0, 0] @ long_key @ [0, 0])"
    by (rule PackBatch_long_batch)
  show "UnpackBatch amd64_16G (header 0 1 @ [0, 0] @ long_key @ [0, 0])
       = Inr \<lparr>Records = [], Context = [[] \<mapsto> []]\<rparr>"
    by (rule UnpackBatch_long_frame) (rule grants_1_0)+
  show "UnpackBatch arm_1G (header 0 1 @ [0, 0] @ long_key @ [0, 0])
       = Inr \<lparr>Records = [], Context = [[] \<mapsto> []]\<rparr>"
    by (rule UnpackBatch_long_frame) (rule grants_1_0)+
  show "Context long_batch long_key = Some []"
    by (simp add: long_batch_def)
  show "Context \<lparr>Records = [], Context = [[] \<mapsto> []]\<rparr> long_key = None"
    by (simp add: long_key_split)
qed

text \<open>
  C1, amended: for every batch that fits the frame (every key and value shorter than
  2^16 bytes, every payload shorter than 2^32 bytes, fewer than 2^32 records and fewer
  than 2^32 entries in every map) and for every order in which the encoder may visit
  the entries of the maps, decoding the encoded bytes returns the batch itself: the same
  records in the same order, each with its payload and its metadata map, and the same
  context map. This holds on every target, 32-bit or 64-bit, on which the length of the
  frame is an \<^verbatim>\<open>int\<close>, as the length of every byte slice is, and whose runtime grants
  the decoder the maps and the slice of records for the counts of the batch itself.
\<close>

theorem PackBatch_UnpackBatch_roundtrip:
  assumes v: "visits b corder morders" and f: "fits_frame b"
    and p: "PackBatch corder morders b = Inr bs"
    and l: "len bs \<le> maxInt m" and g: "grants_batch m b"
  shows "UnpackBatch m bs = Inr b"
proof -
  define ors where "ors = zip morders (Records b)"
  from v have itc: "iterates (Context b) corder"
    and itm: "list_all2 (\<lambda>morder r. iterates (Metadata r) morder) morders (Records b)"
    by (simp_all add: visits_def)
  from visits_sized [OF v f] have sc: "sized_entries corder"
    and so: "\<forall>(mo, r) \<in> set ors. sized_entries mo \<and> length (Payload r) < 2 ^ 32"
    and lo: "length ors = length (Records b)"
    by (simp_all add: ors_def)
  from f lo have lo': "length ors < 2 ^ 32"
    by (simp add: fits_frame_def)
  have gc: "grants m (Make_map (length corder))"
    using g iterates_card [OF itc] by (simp add: grants_batch_def)
  have gr: "grants m (Make_Records (length ors))"
    using g lo by (simp add: grants_batch_def)
  have so': "\<forall>(mo, r) \<in> set ors. sized_entries mo \<and> length (Payload r) < 2 ^ 32
               \<and> grants m (Make_map (length mo))"
  proof (clarify, intro conjI)
    fix mo r assume mem: "(mo, r) \<in> set ors"
    with so show "sized_entries mo" "length (Payload r) < 2 ^ 32"
      by auto
    from mem have r: "r \<in> set (Records b)"
      unfolding ors_def by (rule set_zip_rightD)
    from mem itm have "iterates (Metadata r) mo"
      unfolding ors_def by (auto simp: list_all2_iff)
    then have "card (dom (Metadata r)) = length mo"
      by (rule iterates_card)
    with g r show "grants m (Make_map (length mo))"
      by (auto simp: grants_batch_def)
  qed
  from p have "bs = header (of_nat (length (Records b))) (of_nat (length corder))
                     @ appendEntries [] corder @ appendRecords [] ors @ []"
    by (simp add: PackBatch_layout ors_def)
  then have bs: "bs = header (of_nat (length ors)) (of_nat (length corder))
                        @ appendEntries [] corder @ appendRecords [] ors @ []"
    by (simp only: lo)
  have "decoded corder ors = b"
  proof -
    have "map_of (rev corder) = Context b"
      using itc by (simp add: iterates_def map_of_rev_distinct)
    moreover have "map (\<lambda>(mo, r). \<lparr>Metadata = map_of (rev mo), Payload = Payload r\<rparr>) ors
                   = Records b"
      unfolding ors_def by (rule records_restored [OF itm])
    ultimately show ?thesis
      by (simp add: decoded_def)
  qed
  moreover have "UnpackBatch m bs = Inr (decoded corder ors)"
    unfolding bs using l unfolding bs by (intro UnpackBatch_layout [OF sc so' lo' gc gr])
  ultimately show ?thesis
    by simp
qed

theorem roundtrip_witness:
  "(\<exists>bs. PackBatch [([9, 9], []), ([7], [8])] [[([1], [2, 3])], []] small_batch = Inr bs
         \<and> UnpackBatch amd64_16G bs = Inr small_batch \<and> UnpackBatch arm_1G bs = Inr small_batch)
   \<and> (\<exists>bs. PackBatch [([7], [8]), ([9, 9], [])] [[([1], [2, 3])], []] small_batch = Inr bs
         \<and> UnpackBatch amd64_16G bs = Inr small_batch \<and> UnpackBatch arm_1G bs = Inr small_batch)"
proof -
  obtain bs1 where b1: "PackBatch [([9, 9], []), ([7], [8])] [[([1], [2, 3])], []] small_batch = Inr bs1"
    by (simp add: PackBatch_layout)
  obtain bs2 where b2: "PackBatch [([7], [8]), ([9, 9], [])] [[([1], [2, 3])], []] small_batch = Inr bs2"
    by (simp add: PackBatch_layout)
  from b1 have "length bs1 = 54"
    by (auto simp: PackBatch_layout length_header small_batch_def Let_def)
  then have l1: "len bs1 \<le> maxInt amd64_16G" "len bs1 \<le> maxInt arm_1G"
    by (simp_all add: len_def maxInt_def amd64_16G_def arm_1G_def)
  from b2 have "length bs2 = 54"
    by (auto simp: PackBatch_layout length_header small_batch_def Let_def)
  then have l2: "len bs2 \<le> maxInt amd64_16G" "len bs2 \<le> maxInt arm_1G"
    by (simp_all add: len_def maxInt_def amd64_16G_def arm_1G_def)
  from PackBatch_UnpackBatch_roundtrip [OF small_batch_visits1 small_batch_fits b1 l1(1) small_batch_grants(1)]
       PackBatch_UnpackBatch_roundtrip [OF small_batch_visits1 small_batch_fits b1 l1(2) small_batch_grants(2)]
       PackBatch_UnpackBatch_roundtrip [OF small_batch_visits2 small_batch_fits b2 l2(1) small_batch_grants(1)]
       PackBatch_UnpackBatch_roundtrip [OF small_batch_visits2 small_batch_fits b2 l2(2) small_batch_grants(2)]
       b1 b2
  show ?thesis by blast
qed

text \<open>
  C3 does not hold of the code. \<^verbatim>\<open>UnpackBatch\<close> hands the record count and the context
  count of the header, and the metadata count of every record, to \<^verbatim>\<open>make\<close> before it
  has compared them with anything. For the 16 bytes of a header that announces
  4294967295 records and no context entry, it asks for a slice of 4294967295 records,
  128 GiB where \<^verbatim>\<open>int\<close> has 64 bits: on a target whose runtime cannot obtain them the
  process ends there, and the call returns neither a batch nor an error. Where \<^verbatim>\<open>int\<close>
  has 32 bits, the payload length 2^31 of a 24-byte frame is converted to a negative
  \<^verbatim>\<open>int\<close>; the sum with the offset is negative as well, passes the comparison with
  \<^verbatim>\<open>len(data)\<close>, and the slice expression that follows panics. Where \<^verbatim>\<open>int\<close> has 64
  bits the same frame is rejected with an error.
\<close>

theorem UnpackBatch_ends_without_result:
  "length huge_count_frame = 16
   \<and> UnpackBatch amd64_16G huge_count_frame = Inl OutOfMemory
   \<and> length huge_payload_frame = 24
   \<and> UnpackBatch arm_1G huge_payload_frame = Inl Panic
   \<and> UnpackBatch amd64_16G huge_payload_frame = Inl (Err ''batch: payload extends beyond data'')"
  by (simp add: UnpackBatch_huge_count UnpackBatch_huge_payload UnpackBatch_huge_payload_64)
     (simp add: huge_count_frame_def huge_payload_frame_def)




section \<open>The handlers\<close>

subsection \<open>Concrete states\<close>

lemma srv1_one_eq:
  "srv1_one = \<lparr>heap = (\<lambda>p. NewSession [] [] [])(0 := NewSession ''s1'' ''tenant'' []),
               manager = \<lparr>sessions = [''s1'' \<mapsto> 0], count = 1\<rparr>,
               instances = [''s1'' \<mapsto> 1],
               calls = [SPI_Init 1],
               logs = [LogInfo ''Source session created'']\<rparr>"
  by (simp add: srv1_one_def Source_CreateSession_def Manager_Create_def NewServer_def
      NewManager_def NewSession_def Let_def)

lemma srv1_one_Get: "Manager_Get ''s1'' (heap srv1_one) (manager srv1_one) = Inr 0"
  by (simp add: srv1_one_eq Manager_Get_def IsClosed_def NewSession_def)

lemma srv1_one_facts:
  "\<not> cancelled (heap srv1_one 0)" "window (heap srv1_one 0) = 20"
  by (simp_all add: srv1_one_eq NewSession_def)

lemma srv1_one_sessions: "sessions (manager srv1_one) ''s1'' = Some 0"
  by (simp add: srv1_one_eq)

lemma srv1_one_instances: "instances srv1_one ''s1'' = Some 1"
  by (simp add: srv1_one_eq)

lemma srv1_w1_facts:
  "\<not> cancelled (heap srv1_w1 0)" "window (heap srv1_w1 0) = 1"
  by (simp_all add: srv1_w1_def srv1_one_eq Source_Ack_def Manager_Get_def IsClosed_def
      NewSession_def UpdateWindow_def)

lemma srv4_one_eq:
  "srv4_one = \<lparr>windows = (\<lambda>p. NewWindow 0)(0 := NewWindow 0),
               registry = [''s1'' \<mapsto> \<lparr>spi = 1, window_p = 0\<rparr>],
               spi_calls = [SPI_Init 1]\<rparr>"
  by (simp add: srv4_one_def SourceServer_CreateSession_def NewSourceServer_def Registry_Add_def)

lemma srv4_one_Get: "Registry_Get (registry srv4_one) ''s1'' = Some \<lparr>spi = 1, window_p = 0\<rparr>"
  by (simp add: srv4_one_eq Registry_Get_def)

lemma srv4_one_window: "wvalue (windows srv4_one 0) = 0"
  by (simp add: srv4_one_eq NewWindow_def)

lemma UnpackBatch_empty_frame:
  assumes "grants m (Make_map 0)" "grants m (Make_Records 0)"
  shows "UnpackBatch m (header 0 0) = Inr \<lparr>Records = [], Context = Map.empty\<rparr>"
  using UnpackBatch_header [of m 0 0 "[]"] assms by simp

lemma amd64_16G_grants_0: "grants amd64_16G (Make_map 0)" "grants amd64_16G (Make_Records 0)"
  by (simp_all add: amd64_16G_def)

lemma UnpackBatch_scenario_C: "UnpackBatch m scenario_C = Inl (Err ''batch: invalid magic number'')"
  by (rule UnpackBatch_bad_magic) (simp_all add: scenario_C_def)

lemma served_steps:
  "served amd64_16G srv1_one step_ok" "served amd64_16G srv1_one step_fail"
  "\<not> served amd64_16G srv1_one step_unknown" "\<not> served amd64_16G srv1_one step_malformed"
  by (simp_all add: served_def srv1_one_eq step_ok_def step_fail_def step_unknown_def
      step_malformed_def UnpackBatch_empty_frame amd64_16G_grants_0 UnpackBatch_scenario_C)

lemma returned_steps:
  "returned (UnpackBatch amd64_16G (req_packed step_ok))"
  "returned (UnpackBatch amd64_16G (req_packed step_fail))"
  "returned (UnpackBatch amd64_16G (req_packed step_unknown))"
  "returned (UnpackBatch amd64_16G (req_packed step_malformed))"
  by (simp_all add: returned_def step_ok_def step_fail_def step_unknown_def
      step_malformed_def UnpackBatch_empty_frame amd64_16G_grants_0 UnpackBatch_scenario_C)


subsection \<open>Ack\<close>

lemma SourceServer_Ack_commute2:
  "snd (SourceServer_Ack sid2 b (snd (SourceServer_Ack sid1 a srv)))
   = snd (SourceServer_Ack sid1 a (snd (SourceServer_Ack sid2 b srv)))"
proof (cases "registry srv sid1")
  case None
  then show ?thesis
    by (cases "registry srv sid2") (simp_all add: SourceServer_Ack_def Registry_Get_def)
next
  case s1: (Some sess1)
  show ?thesis
  proof (cases "registry srv sid2")
    case None
    with s1 show ?thesis by (simp add: SourceServer_Ack_def Registry_Get_def)
  next
    case s2: (Some sess2)
    show ?thesis
    proof (cases "window_p sess1 = window_p sess2")
      case True
      with s1 s2 show ?thesis
        by (simp add: SourceServer_Ack_def Registry_Get_def Release_def ac_simps)
    next
      case False
      with s1 s2 show ?thesis
        by (simp add: SourceServer_Ack_def Registry_Get_def Release_def fun_upd_twist)
    qed
  qed
qed

lemma SourceServer_Ack_adds:
  assumes "Registry_Get (registry srv) sid = Some sess"
  shows "wvalue (windows (snd (SourceServer_Ack sid a srv)) (window_p sess))
         = wvalue (windows srv (window_p sess)) + scast a"
  using assms by (simp add: SourceServer_Ack_def Release_def)

lemma Source_Ack_overwrites:
  assumes "Manager_Get sid (heap srv) (manager srv) = Inr p"
  shows "window (heap (snd (Source_Ack sid processed a srv)) p) = a"
  using assms by (simp add: Source_Ack_def UpdateWindow_def)


subsection \<open>The read loops\<close>

lemma Source_iter_EOF:
  assumes "\<not> cancelled (heap srv p)" "\<not> stream_done env" "0 < sint (window (heap srv p))"
    and "read_result env = Inl (Err ''EOF'')"
  shows "fst (Source_OpenStream_iter p inst env (srv, sent)) = Return None"
  using assms by (simp add: Source_OpenStream_iter_def ConsumeWindow_def Let_def)

lemma Source_iter_error:
  assumes "\<not> cancelled (heap srv p)" "\<not> stream_done env" "0 < sint (window (heap srv p))"
    and "read_result env = Inl (Err msg)" "msg \<noteq> ''EOF''"
  shows "Source_OpenStream_iter p inst env (srv, sent)
         = (Continue,
            srv\<lparr>heap := (heap srv)(p := (heap srv p)\<lparr>window := window (heap srv p) - 1\<rparr>),
                calls := calls srv @ [SPI_ReadBatch inst],
                logs := logs srv @ [LogError ''ReadBatch error'']\<rparr>,
            sent)"
  using assms by (simp add: Source_OpenStream_iter_def ConsumeWindow_def Let_def)

lemma Source_loop_error:
  assumes "\<not> cancelled (heap srv p)" "\<not> stream_done env" "0 < sint (window (heap srv p))"
    and "read_result env = Inl (Err msg)" "msg \<noteq> ''EOF''"
  shows "Source_OpenStream_loop p inst (env # envs) (srv, sent)
         = Source_OpenStream_loop p inst envs
            (srv\<lparr>heap := (heap srv)(p := (heap srv p)\<lparr>window := window (heap srv p) - 1\<rparr>),
                 calls := calls srv @ [SPI_ReadBatch inst],
                 logs := logs srv @ [LogError ''ReadBatch error'']\<rparr>,
             sent)"
  by (simp add: Source_iter_error [OF assms])

lemma Source_iter_empty:
  assumes "\<not> cancelled (heap srv p)" "\<not> stream_done env" "0 < sint (window (heap srv p))"
    and "read_result env = Inr b" "Records b = []"
  shows "Source_OpenStream_iter p inst env (srv, sent)
         = (Continue,
            srv\<lparr>heap := (heap srv)(p := (heap srv p)\<lparr>window := window (heap srv p) - 1\<rparr>),
                calls := calls srv @ [SPI_ReadBatch inst]\<rparr>,
            sent)"
  using assms by (simp add: Source_OpenStream_iter_def ConsumeWindow_def Let_def)

lemma Source_iter_no_credit:
  assumes "\<not> cancelled (heap srv p)" "\<not> stream_done env" "sint (window (heap srv p)) \<le> 0"
  shows "Source_OpenStream_iter p inst env (srv, sent) = (Continue, srv, sent)"
  using assms by (simp add: Source_OpenStream_iter_def ConsumeWindow_def Let_def)

lemma Source_iter_cancelled:
  assumes "cancelled (heap srv p) \<or> stream_done env"
  shows "Source_OpenStream_iter p inst env (srv, sent) = (Return None, srv, sent)"
  using assms by (auto simp add: Source_OpenStream_iter_def)

lemma Acquire_credit:
  assumes "0 < sint (wvalue (windows srv p))"
  shows "Acquire p evs srv
         = Some (srv\<lparr>windows := (windows srv)(p := (windows srv p)\<lparr>wvalue := wvalue (windows srv p) - 1\<rparr>)\<rparr>,
                 evs)"
  using assms by (cases evs) (simp_all add: try_Acquire_def)

lemma SourceServer_iter_error:
  assumes "0 < sint (wvalue (windows srv (window_p sess)))" "read_result4 env = Inl err"
  shows "fst (SourceServer_OpenStream_iter codec_Pack sess env evs (srv, sent)) = Return (Some err)"
proof -
  from assms(1) obtain w where "try_Acquire (windows srv (window_p sess)) = Some w"
    by (simp add: try_Acquire_def)
  then obtain srv1 evs1 where "Acquire (window_p sess) evs srv = Some (srv1, evs1)"
    by (cases evs) simp_all
  with assms(2) show ?thesis
    by (simp add: SourceServer_OpenStream_iter_def Let_def)
qed

lemma SourceServer_loop_error:
  assumes "0 < sint (wvalue (windows srv (window_p sess)))" "read_result4 env = Inl err"
  shows "fst (SourceServer_OpenStream_loop codec_Pack sess (env # envs) evs (srv, sent))
         = Return (Some err)"
proof -
  obtain evs1 st1 where r: "SourceServer_OpenStream_iter codec_Pack sess env evs (srv, sent)
      = (Return (Some err), evs1, st1)"
    using SourceServer_iter_error [OF assms, of codec_Pack evs sent]
    by (cases "SourceServer_OpenStream_iter codec_Pack sess env evs (srv, sent)") auto
  show ?thesis
    by (simp add: r)
qed

lemma SourceServer_iter_sends:
  assumes "0 < sint (wvalue (windows srv (window_p sess)))" "read_result4 env = Inr b"
    and "codec_Pack b = Inr packed" "send_result4 env = None"
  shows "SourceServer_OpenStream_iter codec_Pack sess env evs (srv, sent)
         = (Continue, evs,
            srv\<lparr>windows := (windows srv)(window_p sess :=
                   (windows srv (window_p sess))\<lparr>wvalue := wvalue (windows srv (window_p sess)) - 1\<rparr>),
                spi_calls := spi_calls srv @ [SPI_ReadBatch (spi sess)]\<rparr>,
            sent @ [packed])"
  using assms by (simp add: SourceServer_OpenStream_iter_def Acquire_credit Let_def)


subsection \<open>The sink\<close>

lemma Sink_Write_acks:
  assumes "\<forall>x \<in> set xs. sends_fine x \<and> returned (UnpackBatch mach (req_packed x))"
  shows "\<exists>srv'. Sink_Write mach xs (srv, acks)
                 = (None, srv', acks @ map ack_of (filter (served mach srv) xs))
               \<and> instances srv' = instances srv"
  using assms
proof (induction xs arbitrary: srv acks)
  case Nil
  show ?case by simp
next
  case (Cons x xs)
  from Cons.prems have fx: "ack_send_result x = None" "write_result x \<noteq> Some Panic"
      "write_result x \<noteq> Some OutOfMemory"
    and rx: "returned (UnpackBatch mach (req_packed x))"
    and rest: "\<forall>x \<in> set xs. sends_fine x \<and> returned (UnpackBatch mach (req_packed x))"
    by (simp_all add: sends_fine_def)
  show ?case
  proof (cases "instances srv (req_session x)")
    case None
    then have "\<not> served mach srv x" by (simp add: served_def)
    with None Cons.IH [OF rest, of srv acks] show ?thesis by simp
  next
    case (Some inst)
    show ?thesis
    proof (cases "UnpackBatch mach (req_packed x)")
      case (Inl e)
      with rx obtain msg where e: "e = Err msg"
        by (cases e) (simp_all add: returned_def)
      with Inl have u: "UnpackBatch mach (req_packed x) = Inl (Err msg)" by simp
      then have ns: "\<not> served mach srv x" by (simp add: served_def)
      define srv1 where "srv1 = srv\<lparr>logs := logs srv @ [LogError ''Failed to unpack batch'']\<rparr>"
      have i: "instances srv1 = instances srv" by (simp add: srv1_def)
      then have f: "served mach srv1 = served mach srv"
        by (simp add: served_def fun_eq_iff)
      from Cons.IH [OF rest, of srv1 acks] Some u ns show ?thesis
        by (simp add: srv1_def [symmetric] f i)
    next
      case (Inr b)
      then have u: "UnpackBatch mach (req_packed x) = Inr b" .
      with Some have sv: "served mach srv x" by (simp add: served_def)
      show ?thesis
      proof (cases "write_result x")
        case None
        define srv1 where "srv1 = srv\<lparr>calls := calls srv @ [SPI_Write inst]\<rparr>"
        have i: "instances srv1 = instances srv" by (simp add: srv1_def)
        then have f: "served mach srv1 = served mach srv"
          by (simp add: served_def fun_eq_iff)
        have a: "ack_of x = \<lparr>Success = True, Error = []\<rparr>"
          by (simp add: ack_of_def None)
        from Cons.IH [OF rest, of srv1 "acks @ [\<lparr>Success = True, Error = []\<rparr>]"]
          Some u sv None fx show ?thesis
          by (simp add: srv1_def [symmetric] f i a Let_def)
      next
        case (Some e)
        with fx(2,3) obtain msg where e: "e = Err msg" by (cases e) auto
        define srv1 where "srv1 = srv\<lparr>calls := calls srv @ [SPI_Write inst],
            logs := logs srv @ [LogError ''Write error'']\<rparr>"
        have i: "instances srv1 = instances srv" by (simp add: srv1_def)
        then have f: "served mach srv1 = served mach srv"
          by (simp add: served_def fun_eq_iff)
        have a: "ack_of x = \<lparr>Success = False, Error = msg\<rparr>"
          by (simp add: ack_of_def Some e)
        from Cons.IH [OF rest, of srv1 "acks @ [\<lparr>Success = False, Error = msg\<rparr>]"]
          \<open>instances srv (req_session x) = Some inst\<close> u sv Some e fx show ?thesis
          by (simp add: srv1_def [symmetric] f i a Let_def)
      qed
    qed
  qed
qed

text \<open>
  The handler does not outlive a frame that \<^verbatim>\<open>UnpackBatch\<close> does not survive: the message
  that follows it is never read.
\<close>

lemma Sink_Write_huge_count:
  "Sink_Write amd64_16G [step_huge, step_ok] (srv1_one, []) = (Some OutOfMemory, srv1_one, [])"
  by (simp add: step_huge_def srv1_one_eq UnpackBatch_huge_count)

lemma SinkServer_WriteBatch_results:
  assumes "m ''x-planx-session-id'' = Some (sid # sids)"
    and "Registry_Get (sink_registry srv) sid = Some inst" "codec_Unpack payload = Inr b"
  shows "fst (SinkServer_WriteBatch codec_Unpack (Some m) payload (Some err) srv) = Inl err"
    and "fst (SinkServer_WriteBatch codec_Unpack (Some m) payload None srv) = Inr ()"
  using assms by (simp_all add: SinkServer_WriteBatch_def Let_def)


subsection \<open>Closing a session\<close>

lemma Manager_Close_again:
  "fst (Manager_Close sid (fst (snd (Manager_Close sid h m))) (snd (snd (Manager_Close sid h m))))
   = Some ErrSessionNotFound"
  by (cases "sessions m sid") (simp_all add: Manager_Close_def)

lemma Manager_Close_unknown:
  "sessions m sid = None \<Longrightarrow> Manager_Close sid h m = (Some ErrSessionNotFound, h, m)"
  by (simp add: Manager_Close_def)

lemma Manager_Close_known:
  "sessions m sid = Some p \<Longrightarrow>
   Manager_Close sid h m
   = (None, h(p := Session_Close (h p)),
      m\<lparr>sessions := (sessions m)(sid := None), count := count m - 1\<rparr>)"
  by (simp add: Manager_Close_def)

lemma Source_CloseSession_nil: "fst (Source_CloseSession sid c srv) = None"
  by (simp add: Source_CloseSession_def Let_def split: prod.splits option.splits)

lemma Source_CloseSession_instances:
  "instances (snd (Source_CloseSession sid c srv)) = (instances srv)(sid := None)"
  by (auto simp add: Source_CloseSession_def Let_def split: prod.splits option.splits)

lemma Source_CloseSession_calls:
  "calls (snd (Source_CloseSession sid c srv))
   = (case instances srv sid of Some inst \<Rightarrow> calls srv @ [SPI_Close inst] | None \<Rightarrow> calls srv)"
  by (auto simp add: Source_CloseSession_def Let_def split: prod.splits option.splits)

lemma close_all_no_instance:
  assumes "instances srv sid = None"
  shows "calls (close_all sid cs srv) = calls srv"
  using assms
proof (induction cs arbitrary: srv)
  case Nil
  show ?case by (simp add: close_all_def)
next
  case (Cons c cs)
  define srv1 where "srv1 = snd (Source_CloseSession sid c srv)"
  have i: "instances srv1 sid = None"
    by (simp add: srv1_def Source_CloseSession_instances)
  have "calls srv1 = calls srv"
    using Cons.prems by (simp add: srv1_def Source_CloseSession_calls)
  moreover have "close_all sid (c # cs) srv = close_all sid cs srv1"
    by (simp add: close_all_def srv1_def)
  ultimately show ?case
    using Cons.IH [OF i] by simp
qed

lemma close_all_once:
  assumes "instances srv sid = Some inst"
  shows "calls (close_all sid (c # cs) srv) = calls srv @ [SPI_Close inst]"
proof -
  define srv1 where "srv1 = snd (Source_CloseSession sid c srv)"
  have i: "instances srv1 sid = None"
    by (simp add: srv1_def Source_CloseSession_instances)
  have "calls srv1 = calls srv @ [SPI_Close inst]"
    using assms by (simp add: srv1_def Source_CloseSession_calls)
  moreover have "close_all sid (c # cs) srv = close_all sid cs srv1"
    by (simp add: close_all_def srv1_def)
  ultimately show ?thesis
    using close_all_no_instance [OF i, of cs] by simp
qed

lemma Source_CloseSession_sessions:
  "sessions (manager (snd (Source_CloseSession sid c srv))) sid = None"
  by (auto simp add: Source_CloseSession_def Manager_Close_def Let_def
      split: prod.splits option.splits)

lemma Source_CloseSession_cancels:
  assumes "sessions (manager srv) sid = Some p" "\<not> closed (heap srv p)"
  shows "cancelled (heap (snd (Source_CloseSession sid c srv)) p)"
  using assms
  by (auto simp add: Source_CloseSession_def Manager_Close_def Session_Close_def Let_def
      split: option.splits)

lemma Manager_Get_after_Close:
  "Manager_Get sid (fst (snd (Manager_Close sid h m))) (snd (snd (Manager_Close sid h m)))
   = Inl ErrSessionNotFound"
  by (cases "sessions m sid") (simp_all add: Manager_Close_def Manager_Get_def)

lemma errors_distinct: "ErrSessionNotFound \<noteq> ErrSessionClosed"
  by (simp add: ErrSessionNotFound_def ErrSessionClosed_def)

lemma Manager_Get_closed_iff:
  "Manager_Get sid h m = Inl ErrSessionClosed \<longleftrightarrow> (\<exists>p. sessions m sid = Some p \<and> closed (h p))"
  using errors_distinct
  by (cases "sessions m sid") (auto simp add: Manager_Get_def IsClosed_def)

lemma Manager_Get_after_CloseSession:
  "Manager_Get sid (heap (snd (Source_CloseSession sid c srv)))
     (manager (snd (Source_CloseSession sid c srv))) = Inl ErrSessionNotFound"
  using Source_CloseSession_sessions [of sid c srv] by (simp add: Manager_Get_def)


subsection \<open>A parked Acquire\<close>

lemma occur_windows: "\<not> is_Ack ev \<Longrightarrow> windows (occur ev srv) = windows srv"
  by (cases ev)
     (simp_all add: SourceServer_CloseSession_def split: option.splits)

lemma Acquire_stays_parked:
  assumes "\<forall>ev \<in> set evs. \<not> is_Ack ev" "sint (wvalue (windows srv p)) \<le> 0"
  shows "Acquire p evs srv = None"
  using assms
proof (induction evs arbitrary: srv)
  case Nil
  then show ?case by (simp add: try_Acquire_def)
next
  case (Cons ev evs)
  from Cons.prems have "windows (occur ev srv) = windows srv"
    by (intro occur_windows) simp
  with Cons.prems have "sint (wvalue (windows (occur ev srv) p)) \<le> 0"
    by simp
  with Cons.IH [of "occur ev srv"] Cons.prems show ?case
    by (simp add: try_Acquire_def)
qed

lemma Acquire_woken_by_Ack:
  assumes "Registry_Get (registry srv) sid = Some sess"
    and "sint (wvalue (windows srv (window_p sess))) \<le> 0"
    and "0 < sint (wvalue (windows srv (window_p sess)) + scast n)"
  shows "\<exists>srv'. Acquire (window_p sess) (Ev_Ack sid n # evs) srv = Some (srv', evs)
          \<and> wvalue (windows srv' (window_p sess))
              = wvalue (windows srv (window_p sess)) + scast n - 1"
proof -
  define srv1 where "srv1 = occur (Ev_Ack sid n) srv"
  have w: "wvalue (windows srv1 (window_p sess)) = wvalue (windows srv (window_p sess)) + scast n"
    using assms(1) by (simp add: srv1_def SourceServer_Ack_def Release_def)
  with assms(3) have "0 < sint (wvalue (windows srv1 (window_p sess)))"
    by simp
  from Acquire_credit [OF this, of evs] w assms(2) show ?thesis
    by (simp add: try_Acquire_def srv1_def)
qed



section \<open>Claims about the handlers\<close>

text \<open>
  C2, as stated, is false for \<^verbatim>\<open>source.Server.Ack\<close>, which stores the \<^verbatim>\<open>NewWindow\<close> of the
  request as the window (\<^verbatim>\<open>UpdateWindow\<close> "sets a new window size"): on a session
  whose window is 20 an ack of 3 leaves the window at 3, and acks of 3 and 5 leave it at
  5 or at 3, depending on which comes last.
\<close>

theorem Ack_overwrites_counterexample:
  "window (heap srv1_one 0) = 20
   \<and> window (heap (snd (Source_Ack ''s1'' 0 3 srv1_one)) 0) = 3
   \<and> window (heap (snd (Source_Ack ''s1'' 0 5 (snd (Source_Ack ''s1'' 0 3 srv1_one)))) 0) = 5
   \<and> window (heap (snd (Source_Ack ''s1'' 0 3 (snd (Source_Ack ''s1'' 0 5 srv1_one)))) 0) = 3"
  by (simp add: srv1_one_eq Source_Ack_def Manager_Get_def IsClosed_def NewSession_def
      UpdateWindow_def)


text \<open>
  C2, amended: \<^verbatim>\<open>runtime.SourceServer.Ack\<close> adds the value of the request to the credit
  of the session's window (\<^verbatim>\<open>Window.Release\<close>), so two acks, for the same session or
  not, leave the server in the same state in either order; \<^verbatim>\<open>source.Server.Ack\<close> overwrites the window of the session
  with the value of the request, so that the later of two acks decides the window.
\<close>

theorem Ack_semantics:
  "snd (SourceServer_Ack sid2 b (snd (SourceServer_Ack sid a srv4)))
     = snd (SourceServer_Ack sid a (snd (SourceServer_Ack sid2 b srv4)))
   \<and> (\<forall>sess. Registry_Get (registry srv4) sid = Some sess \<longrightarrow>
         wvalue (windows (snd (SourceServer_Ack sid a srv4)) (window_p sess))
         = wvalue (windows srv4 (window_p sess)) + scast a)
   \<and> (\<forall>p. Manager_Get sid (heap srv) (manager srv) = Inr p \<longrightarrow>
         window (heap (snd (Source_Ack sid processed a srv)) p) = a)"
  using SourceServer_Ack_commute2 SourceServer_Ack_adds Source_Ack_overwrites by blast

theorem Ack_semantics_witness:
  "snd (SourceServer_Ack ''s1'' 5 (snd (SourceServer_Ack ''s1'' 3 srv4_one)))
     = snd (SourceServer_Ack ''s1'' 3 (snd (SourceServer_Ack ''s1'' 5 srv4_one)))
   \<and> wvalue (windows (snd (SourceServer_Ack ''s1'' 3 srv4_one)) 0) = 3
   \<and> window (heap (snd (Source_Ack ''s1'' 0 3 srv1_one)) 0) = 3"
proof -
  have w0: "wvalue (windows srv4_one 0) = 0"
    by (simp add: srv4_one_eq NewWindow_def)
  from Ack_semantics [of "''s1''" 5 "''s1''" 3 srv4_one srv1_one 0] srv4_one_Get srv1_one_Get w0
  show ?thesis by simp
qed

text \<open>
  C4, as stated, is false for \<^verbatim>\<open>runtime.SourceServer.OpenStream\<close>: whatever error the
  read callback returns, the end of the input included, ends the stream and is
  returned as the error of the call.
\<close>

theorem runtime_read_error_counterexample:
  "fst (SourceServer_OpenStream_loop (\<lambda>b :: unit. Inr [])
          \<lparr>spi = 1, window_p = 0\<rparr>
          [\<lparr>read_result4 = Inl (Err ''boom''), send_result4 = None\<rparr>,
           \<lparr>read_result4 = Inr (), send_result4 = None\<rparr>] [] (srv4_credit, []))
     = Return (Some (Err ''boom''))
   \<and> fst (SourceServer_OpenStream_loop (\<lambda>b :: unit. Inr [])
          \<lparr>spi = 1, window_p = 0\<rparr>
          [\<lparr>read_result4 = Inl (Err ''EOF''), send_result4 = None\<rparr>] [] (srv4_credit, []))
     = Return (Some (Err ''EOF''))"
  by (simp add: srv4_credit_def srv4_one_eq SourceServer_Ack_def Registry_Get_def Release_def
      NewWindow_def SourceServer_OpenStream_iter_def try_Acquire_def Let_def)


text \<open>
  C4, amended: in the loop of \<^verbatim>\<open>source.Server.OpenStream\<close>, a read that returns the
  end of the input (an error whose message is "EOF") ends the call with a nil error,
  and a read that returns any other error is logged and the loop goes on with the next
  iteration, nothing being sent; in the loop of \<^verbatim>\<open>runtime.SourceServer.OpenStream\<close> a
  read that returns an error, whichever it is, ends the call with that error.
\<close>

theorem read_errors_in_OpenStream:
  "(\<not> cancelled (heap srv p) \<and> \<not> stream_done env \<and> 0 < sint (window (heap srv p))
      \<and> read_result env = Inl (Err ''EOF'')
     \<longrightarrow> fst (Source_OpenStream_loop p inst (env # envs) (srv, sent)) = Return None)
   \<and> (\<not> cancelled (heap srv p) \<and> \<not> stream_done env \<and> 0 < sint (window (heap srv p))
      \<and> read_result env = Inl (Err msg) \<and> msg \<noteq> ''EOF''
     \<longrightarrow> Source_OpenStream_loop p inst (env # envs) (srv, sent)
         = Source_OpenStream_loop p inst envs
            (srv\<lparr>heap := (heap srv)(p := (heap srv p)\<lparr>window := window (heap srv p) - 1\<rparr>),
                 calls := calls srv @ [SPI_ReadBatch inst],
                 logs := logs srv @ [LogError ''ReadBatch error'']\<rparr>,
             sent))
   \<and> (0 < sint (wvalue (windows srv4 (window_p sess))) \<and> read_result4 env4 = Inl err
     \<longrightarrow> fst (SourceServer_OpenStream_loop codec_Pack sess (env4 # envs4) evs (srv4, sent4))
         = Return (Some err))"
proof (intro conjI impI)
  assume a: "\<not> cancelled (heap srv p) \<and> \<not> stream_done env \<and> 0 < sint (window (heap srv p))
      \<and> read_result env = Inl (Err ''EOF'')"
  then have "fst (Source_OpenStream_iter p inst env (srv, sent)) = Return None"
    by (elim conjE) (rule Source_iter_EOF)
  then show "fst (Source_OpenStream_loop p inst (env # envs) (srv, sent)) = Return None"
    by (cases "Source_OpenStream_iter p inst env (srv, sent)") simp
next
  assume "\<not> cancelled (heap srv p) \<and> \<not> stream_done env \<and> 0 < sint (window (heap srv p))
      \<and> read_result env = Inl (Err msg) \<and> msg \<noteq> ''EOF''"
  then show "Source_OpenStream_loop p inst (env # envs) (srv, sent)
         = Source_OpenStream_loop p inst envs
            (srv\<lparr>heap := (heap srv)(p := (heap srv p)\<lparr>window := window (heap srv p) - 1\<rparr>),
                 calls := calls srv @ [SPI_ReadBatch inst],
                 logs := logs srv @ [LogError ''ReadBatch error'']\<rparr>,
             sent)"
    by (elim conjE) (rule Source_loop_error)
next
  assume "0 < sint (wvalue (windows srv4 (window_p sess))) \<and> read_result4 env4 = Inl err"
  then show "fst (SourceServer_OpenStream_loop codec_Pack sess (env4 # envs4) evs (srv4, sent4))
         = Return (Some err)"
    by (elim conjE) (rule SourceServer_loop_error)
qed

theorem read_errors_in_OpenStream_witness:
  "fst (Source_OpenStream_loop 0 1 [env_fail, env_eof] (srv1_one, [])) = Return None
   \<and> fst (SourceServer_OpenStream_loop (\<lambda>b :: unit. Inr [])
            \<lparr>spi = 1, window_p = 0\<rparr>
            [\<lparr>read_result4 = Inl (Err ''boom''), send_result4 = None\<rparr>] [] (srv4_credit, []))
       = Return (Some (Err ''boom''))"
proof -
  define srv' where "srv' = srv1_one\<lparr>heap := (heap srv1_one)
        (0 := (heap srv1_one 0)\<lparr>window := window (heap srv1_one 0) - 1\<rparr>),
      calls := calls srv1_one @ [SPI_ReadBatch 1],
      logs := logs srv1_one @ [LogError ''ReadBatch error'']\<rparr>"
  have s': "\<not> cancelled (heap srv' 0)" "window (heap srv' 0) = 19"
    by (simp_all add: srv'_def srv1_one_facts)
  have 1: "Source_OpenStream_loop 0 1 [env_fail, env_eof] (srv1_one, [])
           = Source_OpenStream_loop 0 1 [env_eof] (srv', [])"
    unfolding srv'_def
    by (rule read_errors_in_OpenStream [THEN conjunct2, THEN conjunct1, THEN mp,
          of srv1_one 0 env_fail "''boom''"])
       (simp add: srv1_one_facts env_fail_def)
  have 2: "fst (Source_OpenStream_loop 0 1 [env_eof] (srv', [])) = Return None"
    by (rule read_errors_in_OpenStream [THEN conjunct1, THEN mp]) (simp add: s' env_eof_def)
  have w: "wvalue (windows srv4_credit 0) = 1"
    by (simp add: srv4_credit_def srv4_one_eq SourceServer_Ack_def Registry_Get_def Release_def
        NewWindow_def)
  have 3: "fst (SourceServer_OpenStream_loop (\<lambda>b :: unit. Inr [])
            \<lparr>spi = 1, window_p = 0\<rparr>
            [\<lparr>read_result4 = Inl (Err ''boom''), send_result4 = None\<rparr>] [] (srv4_credit, []))
       = Return (Some (Err ''boom''))"
    by (rule read_errors_in_OpenStream [THEN conjunct2, THEN conjunct2, THEN mp]) (simp add: w)
  from 1 2 3 show ?thesis by (simp only:)
qed


text \<open>
  C5, as stated, is false: the loop of \<^verbatim>\<open>source.Server.OpenStream\<close> consumes a unit of
  credit before every read and gives nothing back when the batch is empty. With a
  window of 1, an empty read leaves the window at 0, and in the next iteration the
  callback is not called although a batch is ready.
\<close>

theorem empty_read_credit_counterexample:
  "window (heap srv1_w1 0) = 1
   \<and> fst (Source_OpenStream_iter 0 1 env_empty (srv1_w1, [])) = Continue
   \<and> window (heap (fst (snd (Source_OpenStream_iter 0 1 env_empty (srv1_w1, [])))) 0) = 0
   \<and> Source_OpenStream_iter 0 1 env_batch (snd (Source_OpenStream_iter 0 1 env_empty (srv1_w1, [])))
       = (Continue, snd (Source_OpenStream_iter 0 1 env_empty (srv1_w1, [])))
   \<and> calls (fst (snd (Source_OpenStream_loop 0 1 [env_empty, env_batch] (srv1_w1, []))))
       = [SPI_Init 1, SPI_ReadBatch 1]
   \<and> snd (snd (Source_OpenStream_loop 0 1 [env_empty, env_batch] (srv1_w1, []))) = []"
proof -
  have 1: "Source_OpenStream_iter 0 1 env_empty (srv1_w1, [])
           = (Continue,
              srv1_w1\<lparr>heap := (heap srv1_w1)(0 := (heap srv1_w1 0)\<lparr>window := window (heap srv1_w1 0) - 1\<rparr>),
                  calls := calls srv1_w1 @ [SPI_ReadBatch 1]\<rparr>,
              [])"
    by (rule Source_iter_empty [where b = "\<lparr>Records = [], Context = Map.empty\<rparr>"])
       (simp_all add: srv1_w1_facts env_empty_def)
  have 2: "Source_OpenStream_iter 0 1 env_batch
             (srv1_w1\<lparr>heap := (heap srv1_w1)(0 := (heap srv1_w1 0)\<lparr>window := window (heap srv1_w1 0) - 1\<rparr>),
                  calls := calls srv1_w1 @ [SPI_ReadBatch 1]\<rparr>, [])
           = (Continue,
              srv1_w1\<lparr>heap := (heap srv1_w1)(0 := (heap srv1_w1 0)\<lparr>window := window (heap srv1_w1 0) - 1\<rparr>),
                  calls := calls srv1_w1 @ [SPI_ReadBatch 1]\<rparr>, [])"
    by (rule Source_iter_no_credit) (simp_all add: srv1_w1_facts env_batch_def)
  have c: "calls srv1_w1 = [SPI_Init 1]"
    by (simp add: srv1_w1_def srv1_one_eq Source_Ack_def Manager_Get_def IsClosed_def
      NewSession_def)
  show ?thesis
    by (simp only: Source_OpenStream_loop.simps 1 2 prod.case outcome.case fst_conv snd_conv)
       (simp add: srv1_w1_facts c)
qed


text \<open>
  C5, amended: in the loop of \<^verbatim>\<open>source.Server.OpenStream\<close>, when the read callback
  returns an empty batch nothing is sent and the loop goes on, but the unit of credit
  consumed before the read is not given back: the window after the iteration is one
  less than before it, and an iteration that finds no credit does not call the read
  callback. In the loop of \<^verbatim>\<open>runtime.SourceServer.OpenStream\<close> every batch the callback
  returns, empty or not, is encoded and sent, for the unit of credit acquired before
  the read.
\<close>

theorem empty_read_consumes_credit:
  "(\<not> cancelled (heap srv p) \<and> \<not> stream_done env \<and> 0 < sint (window (heap srv p))
      \<and> read_result env = Inr b \<and> Records b = []
     \<longrightarrow> Source_OpenStream_iter p inst env (srv, sent)
         = (Continue,
            srv\<lparr>heap := (heap srv)(p := (heap srv p)\<lparr>window := window (heap srv p) - 1\<rparr>),
                calls := calls srv @ [SPI_ReadBatch inst]\<rparr>,
            sent))
   \<and> (\<not> cancelled (heap srv p) \<and> \<not> stream_done env \<and> sint (window (heap srv p)) \<le> 0
     \<longrightarrow> Source_OpenStream_iter p inst env (srv, sent) = (Continue, srv, sent))
   \<and> (0 < sint (wvalue (windows srv4 (window_p sess))) \<and> read_result4 env4 = Inr b4
      \<and> codec_Pack b4 = Inr packed \<and> send_result4 env4 = None
     \<longrightarrow> SourceServer_OpenStream_iter codec_Pack sess env4 evs (srv4, sent4)
         = (Continue, evs,
            srv4\<lparr>windows := (windows srv4)(window_p sess :=
                   (windows srv4 (window_p sess))\<lparr>wvalue := wvalue (windows srv4 (window_p sess)) - 1\<rparr>),
                 spi_calls := spi_calls srv4 @ [SPI_ReadBatch (spi sess)]\<rparr>,
            sent4 @ [packed]))"
proof (intro conjI impI)
  assume "\<not> cancelled (heap srv p) \<and> \<not> stream_done env \<and> 0 < sint (window (heap srv p))
      \<and> read_result env = Inr b \<and> Records b = []"
  then show "Source_OpenStream_iter p inst env (srv, sent)
         = (Continue,
            srv\<lparr>heap := (heap srv)(p := (heap srv p)\<lparr>window := window (heap srv p) - 1\<rparr>),
                calls := calls srv @ [SPI_ReadBatch inst]\<rparr>,
            sent)"
    by (elim conjE) (rule Source_iter_empty)
next
  assume "\<not> cancelled (heap srv p) \<and> \<not> stream_done env \<and> sint (window (heap srv p)) \<le> 0"
  then show "Source_OpenStream_iter p inst env (srv, sent) = (Continue, srv, sent)"
    by (elim conjE) (rule Source_iter_no_credit)
next
  assume "0 < sint (wvalue (windows srv4 (window_p sess))) \<and> read_result4 env4 = Inr b4
      \<and> codec_Pack b4 = Inr packed \<and> send_result4 env4 = None"
  then show "SourceServer_OpenStream_iter codec_Pack sess env4 evs (srv4, sent4)
         = (Continue, evs,
            srv4\<lparr>windows := (windows srv4)(window_p sess :=
                   (windows srv4 (window_p sess))\<lparr>wvalue := wvalue (windows srv4 (window_p sess)) - 1\<rparr>),
                 spi_calls := spi_calls srv4 @ [SPI_ReadBatch (spi sess)]\<rparr>,
            sent4 @ [packed])"
    by (elim conjE) (rule SourceServer_iter_sends)
qed

theorem empty_read_consumes_credit_witness:
  "window (heap srv1_w1 0) = 1
   \<and> window (heap (fst (snd (Source_OpenStream_iter 0 1 env_empty (srv1_w1, [])))) 0) = 0
   \<and> snd (snd (Source_OpenStream_iter 0 1 env_empty (srv1_w1, []))) = []
   \<and> wvalue (windows srv4_credit 0) = 1
   \<and> wvalue (windows (fst (snd (snd (SourceServer_OpenStream_iter (\<lambda>b :: Batch. Inr [42])
          \<lparr>spi = 1, window_p = 0\<rparr>
          \<lparr>read_result4 = Inr \<lparr>Records = [], Context = Map.empty\<rparr>, send_result4 = None\<rparr>
          [] (srv4_credit, []))))) 0) = 0
   \<and> snd (snd (snd (SourceServer_OpenStream_iter (\<lambda>b :: Batch. Inr [42])
          \<lparr>spi = 1, window_p = 0\<rparr>
          \<lparr>read_result4 = Inr \<lparr>Records = [], Context = Map.empty\<rparr>, send_result4 = None\<rparr>
          [] (srv4_credit, [])))) = [[42]]"
proof -
  have w: "wvalue (windows srv4_credit 0) = 1"
    by (simp add: srv4_credit_def srv4_one_eq SourceServer_Ack_def Registry_Get_def Release_def
        NewWindow_def)
  have 1: "Source_OpenStream_iter 0 1 env_empty (srv1_w1, [])
           = (Continue,
              srv1_w1\<lparr>heap := (heap srv1_w1)(0 := (heap srv1_w1 0)\<lparr>window := window (heap srv1_w1 0) - 1\<rparr>),
                  calls := calls srv1_w1 @ [SPI_ReadBatch 1]\<rparr>,
              [])"
    by (rule empty_read_consumes_credit [THEN conjunct1, THEN mp,
          of srv1_w1 0 env_empty "\<lparr>Records = [], Context = Map.empty\<rparr>"])
       (simp add: srv1_w1_facts env_empty_def)
  have 2: "SourceServer_OpenStream_iter (\<lambda>b :: Batch. Inr [42])
          \<lparr>spi = 1, window_p = 0\<rparr>
          \<lparr>read_result4 = Inr \<lparr>Records = [], Context = Map.empty\<rparr>, send_result4 = None\<rparr>
          [] (srv4_credit, [])
        = (Continue, [],
            srv4_credit\<lparr>windows := (windows srv4_credit)(window_p \<lparr>spi = 1, window_p = 0\<rparr> :=
                   (windows srv4_credit (window_p \<lparr>spi = 1, window_p = 0\<rparr>))
                     \<lparr>wvalue := wvalue (windows srv4_credit (window_p \<lparr>spi = 1, window_p = 0\<rparr>)) - 1\<rparr>),
                 spi_calls := spi_calls srv4_credit @ [SPI_ReadBatch (spi \<lparr>spi = 1, window_p = 0\<rparr>)]\<rparr>,
            [] @ [[42]])"
    by (rule empty_read_consumes_credit [THEN conjunct2, THEN conjunct2, THEN mp])
       (simp add: w)
  show ?thesis
    unfolding 1 2 by (simp add: srv1_w1_facts w)
qed


text \<open>
  C6, as stated, is false: \<^verbatim>\<open>sink.Server.Write\<close> sends no acknowledgment for a message
  whose session has no instance, nor for one whose frame \<^verbatim>\<open>UnpackBatch\<close> rejects, and
  \<^verbatim>\<open>runtime.SinkServer.WriteBatch\<close> answers a failed write with the error of the call,
  not with a negative acknowledgment.
\<close>

theorem unserved_batch_counterexample:
  "Sink_Write amd64_16G [step_unknown] (srv1_one, []) = (None, srv1_one, [])
   \<and> fst (Sink_Write amd64_16G [step_malformed] (srv1_one, [])) = None
   \<and> snd (snd (Sink_Write amd64_16G [step_malformed] (srv1_one, []))) = []
   \<and> codec_stub gob_hi = Inr [0x68, 0x69]
   \<and> fst (SinkServer_WriteBatch codec_stub (Some [''x-planx-session-id'' \<mapsto> [''s1'']]) gob_hi
            (Some (Err ''disk full'')) sink4_one) = Inl (Err ''disk full'')"
  by (simp add: step_unknown_def step_malformed_def srv1_one_eq UnpackBatch_scenario_C
      SinkServer_WriteBatch_def sink4_one_def Registry_Get_def Let_def codec_stub_def)


text \<open>
  C6, amended: on the stream of \<^verbatim>\<open>sink.Server.Write\<close>, as long as the transport accepts
  the acknowledgments, the write callback returns, and \<^verbatim>\<open>UnpackBatch\<close> returns a batch
  or an error for every frame, every message whose session has an instance and whose
  frame decodes gets exactly one acknowledgment, in the order of arrival: a positive one
  when the write callback succeeds, a negative one carrying the message of the error
  when it fails, after which the handler goes on with the next message; a message for an
  unknown session, or whose frame \<^verbatim>\<open>UnpackBatch\<close> rejects with an error, is skipped
  without acknowledgment. \<^verbatim>\<open>runtime.SinkServer.WriteBatch\<close> returns one acknowledgment
  when the write succeeds and the error of the callback, as the error of the call, when
  it fails.
\<close>

theorem one_ack_per_served_batch:
  "((\<forall>x \<in> set xs. sends_fine x \<and> returned (UnpackBatch mach (req_packed x))) \<longrightarrow>
      (\<exists>srv'. Sink_Write mach xs (srv, acks)
              = (None, srv', acks @ map ack_of (filter (served mach srv) xs))))
   \<and> (m ''x-planx-session-id'' = Some (sid # sids)
        \<and> Registry_Get (sink_registry srv4) sid = Some inst \<and> codec_Unpack payload = Inr b
      \<longrightarrow> fst (SinkServer_WriteBatch codec_Unpack (Some m) payload (Some err) srv4) = Inl err
          \<and> fst (SinkServer_WriteBatch codec_Unpack (Some m) payload None srv4) = Inr ())"
proof (intro conjI impI)
  assume "\<forall>x \<in> set xs. sends_fine x \<and> returned (UnpackBatch mach (req_packed x))"
  from Sink_Write_acks [OF this, of srv acks]
  show "\<exists>srv'. Sink_Write mach xs (srv, acks)
              = (None, srv', acks @ map ack_of (filter (served mach srv) xs))"
    by blast
next
  assume a: "m ''x-planx-session-id'' = Some (sid # sids)
        \<and> Registry_Get (sink_registry srv4) sid = Some inst \<and> codec_Unpack payload = Inr b"
  then show "fst (SinkServer_WriteBatch codec_Unpack (Some m) payload (Some err) srv4) = Inl err"
    by (elim conjE) (rule SinkServer_WriteBatch_results)
  from a show "fst (SinkServer_WriteBatch codec_Unpack (Some m) payload None srv4) = Inr ()"
    by (elim conjE) (rule SinkServer_WriteBatch_results)
qed

theorem one_ack_per_served_batch_witness:
  "snd (snd (Sink_Write amd64_16G [step_ok, step_fail, step_unknown, step_malformed, step_ok]
               (srv1_one, [])))
     = [\<lparr>Success = True, Error = []\<rparr>, \<lparr>Success = False, Error = ''disk full''\<rparr>,
        \<lparr>Success = True, Error = []\<rparr>]
   \<and> codec_stub gob_hi = Inr [0x68, 0x69]
   \<and> fst (SinkServer_WriteBatch codec_stub (Some [''x-planx-session-id'' \<mapsto> [''s1'']]) gob_hi
            (Some (Err ''disk full'')) sink4_one) = Inl (Err ''disk full'')
   \<and> fst (SinkServer_WriteBatch codec_stub (Some [''x-planx-session-id'' \<mapsto> [''s1'']]) gob_hi
            None sink4_one) = Inr ()"
proof -
  have f: "\<forall>x \<in> set [step_ok, step_fail, step_unknown, step_malformed, step_ok].
             sends_fine x \<and> returned (UnpackBatch amd64_16G (req_packed x))"
    by (simp add: returned_steps)
       (simp add: sends_fine_def step_ok_def step_fail_def step_unknown_def step_malformed_def)
  from one_ack_per_served_batch [THEN conjunct1, THEN mp, OF f, of srv1_one "[]"]
  have 1: "snd (snd (Sink_Write amd64_16G [step_ok, step_fail, step_unknown, step_malformed, step_ok]
              (srv1_one, [])))
           = map ack_of (filter (served amd64_16G srv1_one)
                [step_ok, step_fail, step_unknown, step_malformed, step_ok])"
    by auto
  have c: "codec_stub gob_hi = Inr [0x68, 0x69]"
    by (simp add: codec_stub_def)
  have 2: "fst (SinkServer_WriteBatch codec_stub (Some [''x-planx-session-id'' \<mapsto> [''s1'']]) gob_hi
            (Some (Err ''disk full'')) sink4_one) = Inl (Err ''disk full'')
         \<and> fst (SinkServer_WriteBatch codec_stub (Some [''x-planx-session-id'' \<mapsto> [''s1'']]) gob_hi
            None sink4_one) = Inr ()"
    using one_ack_per_served_batch [THEN conjunct2, THEN mp,
        of "[''x-planx-session-id'' \<mapsto> [''s1'']]" "''s1''" "[]" sink4_one 1 codec_stub gob_hi
          "[0x68, 0x69]" "Err ''disk full''"]
    by (simp add: sink4_one_def Registry_Get_def c)
  show ?thesis
    unfolding 1 using 2 c
    by (simp add: served_steps) (simp add: ack_of_def step_ok_def step_fail_def)
qed


text \<open>
  C7, as stated, is false for the registry: \<^verbatim>\<open>Manager.Close\<close> removes the session, so a
  second \<^verbatim>\<open>Close\<close> of the same identifier is not a silent no-op but the not-found
  error, which the handler logs as a warning.
\<close>

theorem second_close_counterexample:
  "fst (Manager_Close ''s1'' (heap srv1_one) (manager srv1_one)) = None
   \<and> fst (Manager_Close ''s1''
           (fst (snd (Manager_Close ''s1'' (heap srv1_one) (manager srv1_one))))
           (snd (snd (Manager_Close ''s1'' (heap srv1_one) (manager srv1_one)))))
       = Some ErrSessionNotFound
   \<and> logs (snd (Source_CloseSession ''s1'' None (snd (Source_CloseSession ''s1'' None srv1_one))))
       = logs (snd (Source_CloseSession ''s1'' None srv1_one)) @ [LogWarn ''Session close error'']"
  by (simp add: srv1_one_eq Manager_Close_def Source_CloseSession_def Let_def)


text \<open>
  C7, amended: \<^verbatim>\<open>CloseSession\<close> on the same session identifier twice returns without
  error both times, and however many close requests follow one another the teardown
  hook (\<^verbatim>\<open>Close\<close>) of the bound instance is called exactly once; the registry's \<^verbatim>\<open>Close\<close> returns the not-found error for an unknown identifier,
  and also for an identifier it has already closed, since closing removes the session.
\<close>

theorem close_twice:
  "fst (Source_CloseSession sid c1 srv) = None
   \<and> fst (Source_CloseSession sid c2 (snd (Source_CloseSession sid c1 srv))) = None
   \<and> (instances srv sid = Some inst \<longrightarrow>
        calls (close_all sid (c # cs) srv) = calls srv @ [SPI_Close inst])
   \<and> (sessions m sid = None \<longrightarrow> fst (Manager_Close sid h m) = Some ErrSessionNotFound)
   \<and> (sessions m sid = Some p \<longrightarrow> fst (Manager_Close sid h m) = None)
   \<and> fst (Manager_Close sid (fst (snd (Manager_Close sid h m))) (snd (snd (Manager_Close sid h m))))
       = Some ErrSessionNotFound"
  by (simp add: Source_CloseSession_nil close_all_once
      Manager_Close_again Manager_Close_unknown Manager_Close_known)

theorem close_twice_witness:
  "fst (Source_CloseSession ''s1'' None srv1_one) = None
   \<and> fst (Source_CloseSession ''s1'' None (snd (Source_CloseSession ''s1'' None srv1_one))) = None
   \<and> calls (close_all ''s1'' [None, Some (Err ''late''), None] srv1_one)
       = [SPI_Init 1, SPI_Close 1]
   \<and> fst (Manager_Close ''s1'' (heap srv1_one) (manager srv1_one)) = None
   \<and> fst (Manager_Close ''nobody'' (heap srv1_one) (manager srv1_one)) = Some ErrSessionNotFound"
proof -
  have c: "calls srv1_one = [SPI_Init 1]" and n: "sessions (manager srv1_one) ''nobody'' = None"
    by (simp_all add: srv1_one_eq)
  from close_twice [of "''s1''" None srv1_one None 1 None "[Some (Err ''late''), None]"
      "manager srv1_one" "heap srv1_one" 0]
    close_twice [of "''nobody''" None srv1_one None 1 None "[]" "manager srv1_one" "heap srv1_one" 0]
    srv1_one_sessions srv1_one_instances c n
  show ?thesis by simp
qed

text \<open>
  C8, as stated, is false: after \<^verbatim>\<open>Manager.Close\<close> the lookup of the identifier fails
  with the not-found error, not with the closed-session error.
\<close>

theorem closed_session_not_found_counterexample:
  "Manager_Get ''s1'' (heap srv1_one) (manager srv1_one) = Inr 0
   \<and> fst (Manager_Close ''s1'' (heap srv1_one) (manager srv1_one)) = None
   \<and> Manager_Get ''s1''
        (fst (snd (Manager_Close ''s1'' (heap srv1_one) (manager srv1_one))))
        (snd (snd (Manager_Close ''s1'' (heap srv1_one) (manager srv1_one))))
       = Inl (Err ''session not found'')
   \<and> ErrSessionClosed = Err ''session is closed''
   \<and> fst (Source_OpenStream ''s1'' 5 [env_batch] (snd (Source_CloseSession ''s1'' None srv1_one)))
       = Return (Some (Err ''session not found''))"
  by (simp add: srv1_one_eq Manager_Close_def Manager_Get_def IsClosed_def NewSession_def
      ErrSessionNotFound_def ErrSessionClosed_def Source_OpenStream_def Source_CloseSession_def
      Let_def)


text \<open>
  C8, amended: once a session has been closed through the registry, its identifier is
  no longer registered; \<^verbatim>\<open>Get\<close>, \<^verbatim>\<open>OpenStream\<close> and \<^verbatim>\<open>Ack\<close> on it fail with the
  not-found error, as for an identifier that was never created. \<^verbatim>\<open>Get\<close> returns the
  closed-session error, which is a different error, exactly for a session that is still
  registered and whose closed flag is set.
\<close>

theorem closed_session_lookup:
  "Manager_Get sid (fst (snd (Manager_Close sid h m))) (snd (snd (Manager_Close sid h m)))
     = Inl ErrSessionNotFound
   \<and> (Manager_Get sid h m = Inl ErrSessionClosed
        \<longleftrightarrow> (\<exists>p. sessions m sid = Some p \<and> closed (h p)))
   \<and> ErrSessionNotFound \<noteq> ErrSessionClosed
   \<and> fst (Source_OpenStream sid w envs (snd (Source_CloseSession sid c srv)))
       = Return (Some ErrSessionNotFound)
   \<and> fst (Source_Ack sid processed n (snd (Source_CloseSession sid c srv)))
       = \<lparr>Success = False, Error = ''session not found''\<rparr>"
proof (intro conjI)
  show "Manager_Get sid (fst (snd (Manager_Close sid h m))) (snd (snd (Manager_Close sid h m)))
     = Inl ErrSessionNotFound"
    by (rule Manager_Get_after_Close)
  show "Manager_Get sid h m = Inl ErrSessionClosed
        \<longleftrightarrow> (\<exists>p. sessions m sid = Some p \<and> closed (h p))"
    by (rule Manager_Get_closed_iff)
  show "ErrSessionNotFound \<noteq> ErrSessionClosed"
    by (rule errors_distinct)
  show "fst (Source_OpenStream sid w envs (snd (Source_CloseSession sid c srv)))
       = Return (Some ErrSessionNotFound)"
    by (simp add: Source_OpenStream_def Manager_Get_after_CloseSession)
  show "fst (Source_Ack sid processed n (snd (Source_CloseSession sid c srv)))
       = \<lparr>Success = False, Error = ''session not found''\<rparr>"
    by (simp add: Source_Ack_def Manager_Get_after_CloseSession) (simp add: ErrSessionNotFound_def)
qed

theorem closed_session_lookup_witness:
  "Manager_Get ''s1'' (heap srv1_one) (manager srv1_one) = Inr 0
   \<and> Manager_Get ''s1''
        (fst (snd (Manager_Close ''s1'' (heap srv1_one) (manager srv1_one))))
        (snd (snd (Manager_Close ''s1'' (heap srv1_one) (manager srv1_one))))
       = Inl ErrSessionNotFound
   \<and> Manager_Get ''s1'' ((heap srv1_one)(0 := Session_Close (heap srv1_one 0))) (manager srv1_one)
       = Inl ErrSessionClosed
   \<and> fst (Source_Ack ''s1'' 0 5 (snd (Source_CloseSession ''s1'' None srv1_one)))
       = \<lparr>Success = False, Error = ''session not found''\<rparr>"
proof -
  have "\<exists>p. sessions (manager srv1_one) ''s1'' = Some p
          \<and> closed (((heap srv1_one)(0 := Session_Close (heap srv1_one 0))) p)"
    by (simp add: srv1_one_eq Session_Close_def NewSession_def)
  with closed_session_lookup [of "''s1''" "heap srv1_one" "manager srv1_one" 0 "[]" None srv1_one 0 5]
    closed_session_lookup [of "''s1''" "(heap srv1_one)(0 := Session_Close (heap srv1_one 0))"
      "manager srv1_one" 0 "[]" None srv1_one 0 5]
    srv1_one_Get
  show ?thesis by simp
qed


text \<open>
  C9, as stated, is false: \<^verbatim>\<open>Window.Acquire\<close> takes no context and returns nothing, and
  only \<^verbatim>\<open>Release\<close> wakes it. A caller parked on a window without credit is still
  parked after the session has been closed and the transport cancelled, and the loop of
  \<^verbatim>\<open>runtime.SourceServer.OpenStream\<close> reads and sends another batch after the session
  has been closed if credit is left.
\<close>

theorem Acquire_not_interruptible_counterexample:
  "Acquire 0 [Ev_CloseSession ''s1'', Ev_TransportCancelled] srv4_one = None
   \<and> Acquire 0 [Ev_TransportCancelled, Ev_CloseSession ''s1'', Ev_TransportCancelled] srv4_one = None
   \<and> fst (SourceServer_OpenStream_iter (\<lambda>b :: unit. Inr [42]) \<lparr>spi = 1, window_p = 0\<rparr>
            \<lparr>read_result4 = Inr (), send_result4 = None\<rparr> []
            (occur (Ev_CloseSession ''s1'') srv4_credit, [])) = Continue
   \<and> snd (snd (snd (SourceServer_OpenStream_iter (\<lambda>b :: unit. Inr [42]) \<lparr>spi = 1, window_p = 0\<rparr>
            \<lparr>read_result4 = Inr (), send_result4 = None\<rparr> []
            (occur (Ev_CloseSession ''s1'') srv4_credit, [])))) = [[42]]"
  by (simp add: srv4_credit_def srv4_one_eq SourceServer_Ack_def SourceServer_CloseSession_def
      Registry_Get_def Registry_Remove_def Release_def NewWindow_def
      SourceServer_OpenStream_iter_def try_Acquire_def Let_def)


text \<open>
  C9, amended: a caller parked in \<^verbatim>\<open>Window.Acquire\<close> stays parked whatever sessions are
  closed and whether or not the transport is cancelled; it returns when an \<^verbatim>\<open>Ack\<close>
  releases enough credit to make the counter positive. The loop of
  \<^verbatim>\<open>runtime.SourceServer.OpenStream\<close> checks no cancellation: with credit left it reads
  and sends the next batch after the session has been closed. The loop of
  \<^verbatim>\<open>source.Server.OpenStream\<close>, which does not block, returns with a nil error, before
  any read, in the first iteration that finds the context of the session or of the
  stream done, and \<^verbatim>\<open>CloseSession\<close> cancels the context of the session it closes.
\<close>

theorem Acquire_and_cancellation:
  "((\<forall>ev \<in> set evs. \<not> is_Ack ev) \<and> sint (wvalue (windows srv4 p4)) \<le> 0
     \<longrightarrow> Acquire p4 evs srv4 = None)
   \<and> (Registry_Get (registry srv4) sid = Some sess
        \<and> sint (wvalue (windows srv4 (window_p sess))) \<le> 0
        \<and> 0 < sint (wvalue (windows srv4 (window_p sess)) + scast n)
     \<longrightarrow> (\<exists>srv'. Acquire (window_p sess) (Ev_Ack sid n # evs) srv4 = Some (srv', evs)))
   \<and> (0 < sint (wvalue (windows srv4 (window_p sess))) \<and> read_result4 env4 = Inr b4
        \<and> codec_Pack b4 = Inr packed \<and> send_result4 env4 = None
     \<longrightarrow> (\<exists>srv'. SourceServer_OpenStream_iter codec_Pack sess env4 evs
                    (occur (Ev_CloseSession sid) srv4, sent4)
                  = (Continue, evs, srv', sent4 @ [packed])))
   \<and> (cancelled (heap srv p) \<or> stream_done env
     \<longrightarrow> Source_OpenStream_iter p inst env (srv, sent) = (Return None, srv, sent))
   \<and> (sessions (manager srv) sid = Some p \<and> \<not> closed (heap srv p)
     \<longrightarrow> cancelled (heap (snd (Source_CloseSession sid c srv)) p))"
proof (intro conjI impI)
  assume "(\<forall>ev \<in> set evs. \<not> is_Ack ev) \<and> sint (wvalue (windows srv4 p4)) \<le> 0"
  then show "Acquire p4 evs srv4 = None"
    by (elim conjE) (rule Acquire_stays_parked)
next
  assume "Registry_Get (registry srv4) sid = Some sess
        \<and> sint (wvalue (windows srv4 (window_p sess))) \<le> 0
        \<and> 0 < sint (wvalue (windows srv4 (window_p sess)) + scast n)"
  then show "\<exists>srv'. Acquire (window_p sess) (Ev_Ack sid n # evs) srv4 = Some (srv', evs)"
    using Acquire_woken_by_Ack [of srv4 sid sess n evs] by blast
next
  assume a: "0 < sint (wvalue (windows srv4 (window_p sess))) \<and> read_result4 env4 = Inr b4
        \<and> codec_Pack b4 = Inr packed \<and> send_result4 env4 = None"
  have "windows (occur (Ev_CloseSession sid) srv4) = windows srv4"
    by (rule occur_windows) simp
  with a have "0 < sint (wvalue (windows (occur (Ev_CloseSession sid) srv4) (window_p sess)))"
    by simp
  from SourceServer_iter_sends [OF this, of env4 b4 codec_Pack packed evs sent4] a
  show "\<exists>srv'. SourceServer_OpenStream_iter codec_Pack sess env4 evs
                    (occur (Ev_CloseSession sid) srv4, sent4)
                  = (Continue, evs, srv', sent4 @ [packed])"
    by simp
next
  assume "cancelled (heap srv p) \<or> stream_done env"
  then show "Source_OpenStream_iter p inst env (srv, sent) = (Return None, srv, sent)"
    by (rule Source_iter_cancelled)
next
  assume "sessions (manager srv) sid = Some p \<and> \<not> closed (heap srv p)"
  then show "cancelled (heap (snd (Source_CloseSession sid c srv)) p)"
    by (elim conjE) (rule Source_CloseSession_cancels)
qed

theorem Acquire_and_cancellation_witness:
  "Acquire 0 [Ev_CloseSession ''s1'', Ev_TransportCancelled] srv4_one = None
   \<and> (\<exists>srv'. Acquire 0 [Ev_Ack ''s1'' 2, Ev_TransportCancelled] srv4_one
              = Some (srv', [Ev_TransportCancelled]))
   \<and> Source_OpenStream_iter 0 1 env_batch (snd (Source_CloseSession ''s1'' None srv1_one), [])
       = (Return None, snd (Source_CloseSession ''s1'' None srv1_one), [])"
proof -
  have 1: "Acquire 0 [Ev_CloseSession ''s1'', Ev_TransportCancelled] srv4_one = None"
    by (rule Acquire_and_cancellation [THEN conjunct1, THEN mp]) (simp add: srv4_one_window)
  have 2: "\<exists>srv'. Acquire (window_p \<lparr>spi = 1, window_p = 0\<rparr>)
                (Ev_Ack ''s1'' 2 # [Ev_TransportCancelled]) srv4_one
              = Some (srv', [Ev_TransportCancelled])"
    by (rule Acquire_and_cancellation [THEN conjunct2, THEN conjunct1, THEN mp])
       (simp add: srv4_one_Get srv4_one_window)
  have "cancelled (heap (snd (Source_CloseSession ''s1'' None srv1_one)) 0)"
    by (rule Acquire_and_cancellation [THEN conjunct2, THEN conjunct2, THEN conjunct2,
          THEN conjunct2, THEN mp])
       (simp add: srv1_one_eq NewSession_def)
  then have 3: "Source_OpenStream_iter 0 1 env_batch (snd (Source_CloseSession ''s1'' None srv1_one), [])
       = (Return None, snd (Source_CloseSession ''s1'' None srv1_one), [])"
    by (intro Acquire_and_cancellation [THEN conjunct2, THEN conjunct2, THEN conjunct2,
          THEN conjunct1, THEN mp]) simp
  from 1 2 3 show ?thesis by simp
qed


end

